theory Spec2Isabelle
  imports Main "HOL-Library.Sublist"
begin

section \<open>JavaScript string primitives used by the filter controller\<close>

text \<open>
  Strings are \<^typ>\<open>string\<close>, one \<^typ>\<open>char\<close> per ASCII character. The three string
  methods the script calls are modelled on the ASCII range: \<open>toLowerCase\<close> maps
  \<open>A\<close>..\<open>Z\<close> to \<open>a\<close>..\<open>z\<close> and leaves every other character alone, \<open>trim\<close>
  removes the ASCII white space (tab, line feed, vertical tab, form feed, carriage
  return, space) at both ends, \<open>includes\<close> is the substring test.
\<close>

definition lower_char :: "char \<Rightarrow> char" where
  "lower_char c =
     (case map_of (zip ''ABCDEFGHIJKLMNOPQRSTUVWXYZ'' ''abcdefghijklmnopqrstuvwxyz'') c of
        None \<Rightarrow> c
      | Some l \<Rightarrow> l)"

definition toLowerCase :: "string \<Rightarrow> string" where
  "toLowerCase s = map lower_char s"

definition is_ws :: "char \<Rightarrow> bool" where
  "is_ws c = (c \<in> set [CHR 0x09, CHR 0x0A, CHR 0x0B, CHR 0x0C, CHR 0x0D, CHR '' ''])"

definition trim :: "string \<Rightarrow> string" where
  "trim s = rev (dropWhile is_ws (rev (dropWhile is_ws s)))"

text \<open>\<open>s.includes(q)\<close>: \<open>q\<close> occurs in \<open>s\<close> at some position.\<close>

fun includes_str :: "string \<Rightarrow> string \<Rightarrow> bool" where
  "includes_str [] q = (q = [])"
| "includes_str (c # s) q = (prefix q (c # s) \<or> includes_str s q)"

text \<open>
  \<open>x || d\<close> on a value that is \<open>undefined\<close> (the attribute is absent) or a string:
  the empty string is falsy too.
\<close>

definition or_else :: "string option \<Rightarrow> string \<Rightarrow> string" where
  "or_else x d = (case x of None \<Rightarrow> d | Some v \<Rightarrow> if v = [] then d else v)"

text \<open>A non-negative integer in a template literal: its decimal digits.\<close>

definition digit_char :: "nat \<Rightarrow> char" where
  "digit_char d = ''0123456789'' ! d"

fun show_nat :: "nat \<Rightarrow> string" where
  "show_nat n =
     (if n < 10 then [digit_char n] else show_nat (n div 10) @ [digit_char (n mod 10)])"

declare show_nat.simps [simp del]

text \<open>
  \<open>Number.parseInt(s, 10)\<close>: leading white space is skipped, one sign is read, then the
  longest run of decimal digits; no digit at all gives \<open>NaN\<close> (here \<open>None\<close>). The
  result is exact up to \<open>2^53\<close>; beyond that JavaScript rounds to a double, which is not
  modelled.
\<close>

definition is_digit :: "char \<Rightarrow> bool" where
  "is_digit c = (c \<in> set ''0123456789'')"

definition digit_value :: "char \<Rightarrow> nat" where
  "digit_value c =
     (case map_of (zip ''0123456789'' [0, 1, 2, 3, 4, 5, 6, 7, 8, 9]) c of
        None \<Rightarrow> 0
      | Some d \<Rightarrow> d)"

definition digits_value :: "string \<Rightarrow> nat" where
  "digits_value ds = foldl (\<lambda>acc c. 10 * acc + digit_value c) 0 ds"

definition parseInt10 :: "string \<Rightarrow> int option" where
  "parseInt10 s =
     (let s1 = dropWhile is_ws s;
          negative = (case s1 of [] \<Rightarrow> False | c # _ \<Rightarrow> c = CHR ''-'');
          s2 = (case s1 of [] \<Rightarrow> [] | c # r \<Rightarrow> if c = CHR ''-'' \<or> c = CHR ''+'' then r else s1);
          ds = takeWhile is_digit s2
      in if ds = [] then None
         else Some (if negative then - int (digits_value ds) else int (digits_value ds)))"

text \<open>A number in a template literal: \<open>NaN\<close>, or the decimal digits with their sign.\<close>

definition show_number :: "int option \<Rightarrow> string" where
  "show_number x =
     (case x of
        None \<Rightarrow> ''NaN''
      | Some n \<Rightarrow> if n < 0 then ''-'' @ show_nat (nat (- n)) else show_nat (nat n))"

section \<open>The page: cards, sections, filter buttons\<close>

text \<open>
  A \<open>.repo-card\<close> element. The \<open>data-*\<close> attributes are optional; \<open>card_hidden\<close> is
  the \<open>hidden\<close> attribute; \<open>card_sections\<close> lists the positions (in the page's list
  of \<open>.repo-section\<close> elements) of the sections the card is a descendant of.
\<close>

record card =
  repoName :: "string option"
  repoLanguage :: "string option"
  repoDescription :: "string option"
  card_hidden :: bool
  card_sections :: "nat list"

text \<open>
  The \<open>.section-count\<close> element of a section: its \<open>data-total\<close> attribute and its
  text content.
\<close>

record section_count =
  total :: "string option"
  count_text :: string

text \<open>
  A \<open>.repo-section\<close> element: its \<open>hidden\<close> attribute and its summary element
  (\<open>None\<close> when the section has none, or it is not an \<open>HTMLElement\<close>). Each section
  has a summary element of its own.
\<close>

record repo_section =
  section_hidden :: bool
  sectionCount :: "section_count option"

text \<open>
  A \<open>.language-filter[data-language]\<close> element: the selector guarantees the
  \<open>data-language\<close> attribute; \<open>aria_pressed\<close> is the \<open>aria-pressed\<close> attribute,
  \<open>is_active\<close> the membership of \<open>is-active\<close> in the class list, \<open>button_hidden\<close>
  the \<open>hidden\<close> attribute.
\<close>

record button =
  language :: string
  aria_pressed :: "string option"
  is_active :: bool
  button_hidden :: bool

text \<open>
  The document as the script sees it. \<open>searchInput\<close> is the value of \<open>#repo-search\<close>
  when that element is an \<open>HTMLInputElement\<close> and \<open>None\<close> otherwise; \<open>emptyState\<close>
  is the \<open>hidden\<close> attribute of \<open>#search-empty\<close>, \<open>totalCountLabel\<close> the text of
  \<open>#repo-total-count\<close>, each \<open>None\<close> when the element is absent. The elements are
  pairwise distinct.
\<close>

record page =
  searchInput :: "string option"
  repo_cards :: "card list"
  sections :: "repo_section list"
  emptyState :: "bool option"
  totalCountLabel :: "string option"
  languageFilters :: "button list"

text \<open>\<open>cards\<close>: the elements matching \<open>.repo-card[data-repo-name]\<close>.\<close>

definition has_repo_name :: "card \<Rightarrow> bool" where
  "has_repo_name c = (repoName c \<noteq> None)"

definition cards :: "page \<Rightarrow> card list" where
  "cards p = filter has_repo_name (repo_cards p)"

section \<open>The closures of the script\<close>

definition searchableText :: "card \<Rightarrow> string" where
  "searchableText c =
     (let name = or_else (repoName c) [];
          lang = or_else (repoLanguage c) [];
          description = or_else (repoDescription c) []
      in toLowerCase (name @ '' '' @ lang @ '' '' @ description))"

definition is_pressed :: "button \<Rightarrow> bool" where
  "is_pressed button = (aria_pressed button = Some ''true'')"

definition selectedLanguages :: "button list \<Rightarrow> string set" where
  "selectedLanguages bs =
     set (map language (filter (\<lambda>button. language button \<noteq> [] \<and> is_pressed button) bs))"

definition setButtonPressed :: "button \<Rightarrow> bool \<Rightarrow> button" where
  "setButtonPressed button isPressed =
     button\<lparr>aria_pressed := Some (if isPressed then ''true'' else ''false''),
            is_active := isPressed\<rparr>"

text \<open>\<open>languageFilters.find(...)\<close>, as the position of the element found.\<close>

fun findIndex :: "('a \<Rightarrow> bool) \<Rightarrow> 'a list \<Rightarrow> nat option" where
  "findIndex P [] = None"
| "findIndex P (x # xs) = (if P x then Some 0 else map_option Suc (findIndex P xs))"

definition allButton :: "button list \<Rightarrow> nat option" where
  "allButton bs = findIndex (\<lambda>button. language button = []) bs"

subsection \<open>applyLanguageAvailability\<close>

definition cardLanguage :: "card \<Rightarrow> string" where
  "cardLanguage c = toLowerCase (or_else (repoLanguage c) ''unknown'')"

definition availableLanguages :: "page \<Rightarrow> string set" where
  "availableLanguages p = set (map cardLanguage (cards p))"

definition availabilityStep :: "string set \<Rightarrow> button \<Rightarrow> button" where
  "availabilityStep available button =
     (let language = toLowerCase (language button)
      in if language = [] then button\<lparr>button_hidden := False\<rparr>
         else let isAvailable = (language \<in> available);
                  button' = button\<lparr>button_hidden := \<not> isAvailable\<rparr>
              in if \<not> isAvailable then setButtonPressed button' False else button')"

definition applyLanguageAvailability :: "page \<Rightarrow> page" where
  "applyLanguageAvailability p =
     (let bs = map (availabilityStep (availableLanguages p)) (languageFilters p)
      in case allButton (languageFilters p) of
           None \<Rightarrow> p\<lparr>languageFilters := bs\<rparr>
         | Some a \<Rightarrow>
             if card (selectedLanguages bs) = 0
             then p\<lparr>languageFilters := bs[a := setButtonPressed (bs ! a) True]\<rparr>
             else p\<lparr>languageFilters := bs\<rparr>)"

subsection \<open>applyFilter\<close>

definition isVisible :: "string \<Rightarrow> string set \<Rightarrow> card \<Rightarrow> bool" where
  "isVisible query activeLanguages c =
     (let hasLanguageFilter = (0 < card activeLanguages);
          queryMatches = (query = [] \<or> includes_str (searchableText c) query);
          languageMatches = (\<not> hasLanguageFilter \<or> cardLanguage c \<in> activeLanguages)
      in queryMatches \<and> languageMatches)"

text \<open>
  The loop over \<open>cards\<close>: every card with a \<open>data-repo-name\<close> gets its \<open>hidden\<close>
  attribute set, and the visible ones are counted. A \<open>.repo-card\<close> without the
  attribute is not in \<open>cards\<close> and is left as it is.
\<close>

fun cardLoop :: "string \<Rightarrow> string set \<Rightarrow> card list \<Rightarrow> nat \<Rightarrow> card list \<times> nat" where
  "cardLoop query activeLanguages [] visibleCards = ([], visibleCards)"
| "cardLoop query activeLanguages (c # cs) visibleCards =
     (if has_repo_name c
      then let v = isVisible query activeLanguages c;
               (cs', n) = cardLoop query activeLanguages cs (if v then visibleCards + 1 else visibleCards)
           in (c\<lparr>card_hidden := \<not> v\<rparr> # cs', n)
      else let (cs', n) = cardLoop query activeLanguages cs visibleCards
           in (c # cs', n))"

text \<open>\<open>section.querySelectorAll(".repo-card:not([hidden])")\<close> for the section at position \<open>i\<close>.\<close>

definition visibleCardsIn :: "card list \<Rightarrow> nat \<Rightarrow> card list" where
  "visibleCardsIn cs i = filter (\<lambda>c. i \<in> set (card_sections c) \<and> \<not> card_hidden c) cs"

definition sectionLoop :: "bool \<Rightarrow> card list \<Rightarrow> repo_section list \<Rightarrow> repo_section list" where
  "sectionLoop isFiltering cs secs =
     map (\<lambda>i. if \<not> isFiltering then (secs ! i)\<lparr>section_hidden := False\<rparr>
              else let hasVisibleCard = (visibleCardsIn cs i \<noteq> [])
                   in (secs ! i)\<lparr>section_hidden := \<not> hasVisibleCard\<rparr>)
         [0..<length secs]"

definition countLoop :: "card list \<Rightarrow> repo_section list \<Rightarrow> repo_section list" where
  "countLoop cs secs =
     map (\<lambda>i. case sectionCount (secs ! i) of
                None \<Rightarrow> secs ! i
              | Some sc \<Rightarrow>
                  let sectionTotal = parseInt10 (or_else (total sc) ''0'');
                      sectionVisible = length (visibleCardsIn cs i)
                  in (secs ! i)\<lparr>sectionCount :=
                       Some (sc\<lparr>count_text :=
                         ''Repositories: '' @ show_nat sectionVisible @ ''/'' @ show_number sectionTotal\<rparr>)\<rparr>)
         [0..<length secs]"

text \<open>
  \<open>applyFilter\<close>, with the two values of its closure it reads but never writes as
  parameters: \<open>totalCount\<close>, captured at start-up, and \<open>v\<close>, the current
  \<open>searchInput.value\<close>.
\<close>

definition applyFilter :: "nat \<Rightarrow> string \<Rightarrow> page \<Rightarrow> page" where
  "applyFilter totalCount v p =
     (let query = toLowerCase (trim v);
          activeLanguages = selectedLanguages (languageFilters p);
          hasLanguageFilter = (0 < card activeLanguages);
          isFiltering = (query \<noteq> [] \<or> hasLanguageFilter);
          (cs, visibleCards) = cardLoop query activeLanguages (repo_cards p) 0;
          secs = sectionLoop isFiltering cs (sections p);
          es = (case emptyState p of
                  None \<Rightarrow> None
                | Some _ \<Rightarrow> Some (\<not> isFiltering \<or> 0 < visibleCards));
          label = (case totalCountLabel p of
                     None \<Rightarrow> None
                   | Some _ \<Rightarrow>
                       Some (''Public repositories: '' @ show_nat visibleCards @ ''/'' @ show_nat totalCount))
      in p\<lparr>repo_cards := cs,
           sections := countLoop cs secs,
           emptyState := es,
           totalCountLabel := label\<rparr>)"

subsection \<open>The click handler of a filter button\<close>

text \<open>The part of the handler that presses and releases buttons, for the button at position \<open>i\<close>.\<close>

definition clickButtons :: "nat \<Rightarrow> button list \<Rightarrow> button list" where
  "clickButtons i bs =
     (if language (bs ! i) = []
      then map (\<lambda>filterButton. setButtonPressed filterButton (language filterButton = [])) bs
      else let bs1 = bs[i := setButtonPressed (bs ! i) (aria_pressed (bs ! i) \<noteq> Some ''true'')];
               bs2 = (case allButton bs of
                        None \<Rightarrow> bs1
                      | Some a \<Rightarrow> bs1[a := setButtonPressed (bs1 ! a) False]);
               hasAnySpecificFilter = (0 < card (selectedLanguages bs2))
           in case allButton bs of
                None \<Rightarrow> bs2
              | Some a \<Rightarrow>
                  if \<not> hasAnySpecificFilter then bs2[a := setButtonPressed (bs2 ! a) True] else bs2)"

subsection \<open>Start-up and events\<close>

text \<open>
  The body of the script. Without the text input it returns at once: nothing is
  changed and no listener is registered.
\<close>

definition main :: "page \<Rightarrow> page" where
  "main p =
     (case searchInput p of
        None \<Rightarrow> p
      | Some v \<Rightarrow> applyFilter (length (cards p)) v (applyLanguageAvailability p))"

text \<open>
  The two events the script listens to: the user changes the text input to a new
  value, or a click reaches the filter button at a position of \<open>languageFilters\<close>.
  The listeners exist only when the script got past its guard, so on a page without
  the text input an event changes nothing; a position outside \<open>languageFilters\<close>
  is no button and has no listener.
\<close>

datatype event = Input string | Click nat

definition dispatch :: "nat \<Rightarrow> event \<Rightarrow> page \<Rightarrow> page" where
  "dispatch totalCount e p =
     (case searchInput p of
        None \<Rightarrow> p
      | Some v \<Rightarrow>
          (case e of
             Input v' \<Rightarrow> applyFilter totalCount v' (p\<lparr>searchInput := Some v'\<rparr>)
           | Click i \<Rightarrow>
               if i < length (languageFilters p)
               then applyFilter totalCount v (p\<lparr>languageFilters := clickButtons i (languageFilters p)\<rparr>)
               else p))"

text \<open>The page after the script has run and the events \<open>es\<close> have been handled in order.\<close>

definition run :: "page \<Rightarrow> event list \<Rightarrow> page" where
  "run p es = foldl (\<lambda>q e. dispatch (length (cards p)) e q) (main p) es"

subsection \<open>The text-only variant of the script\<close>

text \<open>
  \<open>site/search.js\<close> is the same script without the filter buttons and the
  summaries: the same guard, the same \<open>searchableText\<close>, and a recomputation that
  looks at the query alone.
\<close>

definition isVisible_simple :: "string \<Rightarrow> card \<Rightarrow> bool" where
  "isVisible_simple query c = (query = [] \<or> includes_str (searchableText c) query)"

fun cardLoop_simple :: "string \<Rightarrow> card list \<Rightarrow> nat \<Rightarrow> card list \<times> nat" where
  "cardLoop_simple query [] visibleCards = ([], visibleCards)"
| "cardLoop_simple query (c # cs) visibleCards =
     (if has_repo_name c
      then let v = isVisible_simple query c;
               (cs', n) = cardLoop_simple query cs (if v then visibleCards + 1 else visibleCards)
           in (c\<lparr>card_hidden := \<not> v\<rparr> # cs', n)
      else let (cs', n) = cardLoop_simple query cs visibleCards
           in (c # cs', n))"

definition applyFilter_simple :: "string \<Rightarrow> page \<Rightarrow> page" where
  "applyFilter_simple v p =
     (let query = toLowerCase (trim v);
          (cs, visibleCards) = cardLoop_simple query (repo_cards p) 0;
          secs = sectionLoop (query \<noteq> []) cs (sections p);
          es = (case emptyState p of
                  None \<Rightarrow> None
                | Some _ \<Rightarrow> Some (query = [] \<or> 0 < visibleCards))
      in p\<lparr>repo_cards := cs, sections := secs, emptyState := es\<rparr>)"

definition main_simple :: "page \<Rightarrow> page" where
  "main_simple p = (case searchInput p of None \<Rightarrow> p | Some v \<Rightarrow> applyFilter_simple v p)"

subsection \<open>The script with its null checks\<close>

text \<open>
  Five references of the script may be \<open>null\<close> or \<open>undefined\<close>: the text input, the
  empty-state indicator, the global summary, the summary element of a section, and the
  all button that \<open>find\<close> returns. Reading or writing a property of such a reference
  throws a \<open>TypeError\<close>; every other element the script touches comes out of a
  \<open>querySelectorAll\<close> and exists. The functions below are the closures once more, with
  each such access as an operation that can fail and each check of the source
  (\<open>if (emptyState)\<close>, \<open>if (totalCountLabel)\<close>, \<open>instanceof HTMLElement\<close>,
  \<open>if (allButton)\<close>, the guard of the script) where the source has it.
\<close>

datatype error = TypeError

definition and_then :: "error + 'a \<Rightarrow> ('a \<Rightarrow> error + 'b) \<Rightarrow> error + 'b" where
  "and_then r f = (case r of Inl e \<Rightarrow> Inl e | Inr x \<Rightarrow> f x)"

text \<open>\<open>searchInput.value\<close>, \<open>el.hidden = h\<close>, \<open>el.textContent = t\<close>.\<close>

definition value_of :: "string option \<Rightarrow> error + string" where
  "value_of el = (case el of None \<Rightarrow> Inl TypeError | Some v \<Rightarrow> Inr v)"

definition set_hidden :: "bool option \<Rightarrow> bool \<Rightarrow> error + bool option" where
  "set_hidden el h = (case el of None \<Rightarrow> Inl TypeError | Some _ \<Rightarrow> Inr (Some h))"

definition set_textContent :: "string option \<Rightarrow> string \<Rightarrow> error + string option" where
  "set_textContent el t = (case el of None \<Rightarrow> Inl TypeError | Some _ \<Rightarrow> Inr (Some t))"

text \<open>\<open>sectionCount.dataset.total\<close> and \<open>sectionCount.textContent = t\<close>.\<close>

definition dataset_total :: "section_count option \<Rightarrow> error + string option" where
  "dataset_total el = (case el of None \<Rightarrow> Inl TypeError | Some sc \<Rightarrow> Inr (total sc))"

definition set_count_text :: "section_count option \<Rightarrow> string \<Rightarrow> error + section_count option" where
  "set_count_text el t =
     (case el of None \<Rightarrow> Inl TypeError | Some sc \<Rightarrow> Inr (Some (sc\<lparr>count_text := t\<rparr>)))"

text \<open>\<open>setButtonPressed(allButton, isPressed)\<close>, where \<open>allButton\<close> is what \<open>find\<close> returned.\<close>

definition press :: "nat option \<Rightarrow> bool \<Rightarrow> button list \<Rightarrow> error + button list" where
  "press found isPressed bs =
     (case found of
        None \<Rightarrow> Inl TypeError
      | Some a \<Rightarrow> Inr (bs[a := setButtonPressed (bs ! a) isPressed]))"

definition applyLanguageAvailability_js :: "page \<Rightarrow> error + page" where
  "applyLanguageAvailability_js p =
     (let found = allButton (languageFilters p);
          bs = map (availabilityStep (availableLanguages p)) (languageFilters p)
      in if found \<noteq> None \<and> card (selectedLanguages bs) = 0
         then and_then (press found True bs) (\<lambda>bs'. Inr (p\<lparr>languageFilters := bs'\<rparr>))
         else Inr (p\<lparr>languageFilters := bs\<rparr>))"

text \<open>The loop over the summaries; \<open>continue\<close> when the section has no summary element.\<close>

fun countLoop_js :: "card list \<Rightarrow> nat \<Rightarrow> repo_section list \<Rightarrow> error + repo_section list" where
  "countLoop_js cs i [] = Inr []"
| "countLoop_js cs i (s # secs) =
     and_then
       (if sectionCount s = None then Inr s
        else and_then (dataset_total (sectionCount s)) (\<lambda>t.
             let sectionTotal = parseInt10 (or_else t ''0'');
                 sectionVisible = length (visibleCardsIn cs i)
             in and_then
                  (set_count_text (sectionCount s)
                     (''Repositories: '' @ show_nat sectionVisible @ ''/'' @ show_number sectionTotal))
                  (\<lambda>sc. Inr (s\<lparr>sectionCount := sc\<rparr>))))
       (\<lambda>s'. and_then (countLoop_js cs (Suc i) secs) (\<lambda>secs'. Inr (s' # secs')))"

definition applyFilter_js :: "nat \<Rightarrow> page \<Rightarrow> error + page" where
  "applyFilter_js totalCount p =
     and_then (value_of (searchInput p)) (\<lambda>v.
       let query = toLowerCase (trim v);
           activeLanguages = selectedLanguages (languageFilters p);
           hasLanguageFilter = (0 < card activeLanguages);
           isFiltering = (query \<noteq> [] \<or> hasLanguageFilter);
           (cs, visibleCards) = cardLoop query activeLanguages (repo_cards p) 0;
           secs = sectionLoop isFiltering cs (sections p)
       in and_then
            (if emptyState p \<noteq> None
             then set_hidden (emptyState p) (\<not> isFiltering \<or> 0 < visibleCards)
             else Inr (emptyState p)) (\<lambda>es.
          and_then
            (if totalCountLabel p \<noteq> None
             then set_textContent (totalCountLabel p)
                    (''Public repositories: '' @ show_nat visibleCards @ ''/'' @ show_nat totalCount)
             else Inr (totalCountLabel p)) (\<lambda>label.
          and_then (countLoop_js cs 0 secs) (\<lambda>secs'.
            Inr (p\<lparr>repo_cards := cs, sections := secs', emptyState := es,
                   totalCountLabel := label\<rparr>)))))"

definition clickButtons_js :: "nat \<Rightarrow> button list \<Rightarrow> error + button list" where
  "clickButtons_js i bs =
     (let found = allButton bs
      in if language (bs ! i) = []
         then Inr (map (\<lambda>filterButton. setButtonPressed filterButton (language filterButton = [])) bs)
         else let bs1 = bs[i := setButtonPressed (bs ! i) (aria_pressed (bs ! i) \<noteq> Some ''true'')]
              in and_then (if found \<noteq> None then press found False bs1 else Inr bs1) (\<lambda>bs2.
                   let hasAnySpecificFilter = (0 < card (selectedLanguages bs2))
                   in if \<not> hasAnySpecificFilter \<and> found \<noteq> None then press found True bs2
                      else Inr bs2))"

text \<open>
  The body of the script, with the queries it makes on the document and the listeners
  it registers, in the order of the source. The script holds no reference to a card,
  a section, a button or a summary but through these queries.
\<close>

datatype query = GetById string | QueryAll string

datatype listener = OnClick nat | OnInput

definition main_js :: "page \<Rightarrow> error + page \<times> query list \<times> listener list" where
  "main_js p =
     (if searchInput p = None then Inr (p, [GetById ''repo-search''], [])
      else let queries =
                 [GetById ''repo-search'', QueryAll ''.repo-card[data-repo-name]'',
                  QueryAll ''.repo-section'', GetById ''search-empty'',
                  GetById ''repo-total-count'', QueryAll ''.language-filter[data-language]''];
               clicks = map OnClick [0..<length (languageFilters p)]
           in and_then (applyLanguageAvailability_js p) (\<lambda>p1.
              and_then (applyFilter_js (length (cards p)) p1) (\<lambda>p2.
                Inr (p2, queries, clicks @ [OnInput]))))"

definition dispatch_js :: "nat \<Rightarrow> event \<Rightarrow> page \<Rightarrow> error + page" where
  "dispatch_js totalCount e p =
     (if searchInput p = None then Inr p
      else case e of
             Input v' \<Rightarrow> applyFilter_js totalCount (p\<lparr>searchInput := Some v'\<rparr>)
           | Click i \<Rightarrow>
               if i < length (languageFilters p)
               then and_then (clickButtons_js i (languageFilters p)) (\<lambda>bs.
                      applyFilter_js totalCount (p\<lparr>languageFilters := bs\<rparr>))
               else Inr p)"

fun events_js :: "nat \<Rightarrow> event list \<Rightarrow> page \<Rightarrow> error + page" where
  "events_js totalCount [] p = Inr p"
| "events_js totalCount (e # es) p =
     and_then (dispatch_js totalCount e p) (events_js totalCount es)"

definition run_js :: "page \<Rightarrow> event list \<Rightarrow> error + page" where
  "run_js p es = and_then (main_js p) (\<lambda>(p', qs, ls). events_js (length (cards p)) es p')"

section \<open>The toggle state machine as the specification describes it\<close>

text \<open>
  The specification speaks of buttons with a category value and a pressed flag, of
  "the all button" (the value is the empty string) and of "specific" buttons (any
  other value). A button group in these terms is a list of pairs, and \<open>toggles\<close>
  reads it off the page's buttons.
\<close>

type_synonym toggle = "string \<times> bool"

definition toggles :: "button list \<Rightarrow> toggle list" where
  "toggles bs = map (\<lambda>b. (language b, is_pressed b)) bs"

definition spec_selected :: "toggle list \<Rightarrow> string set" where
  "spec_selected ts = set (map fst (filter (\<lambda>t. fst t \<noteq> [] \<and> snd t) ts))"

definition spec_set_all :: "bool \<Rightarrow> toggle list \<Rightarrow> toggle list" where
  "spec_set_all x ts = map (\<lambda>t. if fst t = [] then (fst t, x) else t) ts"

text \<open>
  The reference transition, in the specification's words. On the all button: unpress
  every specific button, press all. On a specific button: flip its flag, unpress all,
  and if the selected set is then empty, press all instead.
\<close>

definition spec_click :: "nat \<Rightarrow> toggle list \<Rightarrow> toggle list" where
  "spec_click i ts =
     (if fst (ts ! i) = []
      then spec_set_all True (map (\<lambda>t. if fst t \<noteq> [] then (fst t, False) else t) ts)
      else let flipped = ts[i := (fst (ts ! i), \<not> snd (ts ! i))];
               released = spec_set_all False flipped
           in if spec_selected released = {} then spec_set_all True released else released)"

text \<open>The group has at most one all button.\<close>

definition single_all :: "button list \<Rightarrow> bool" where
  "single_all bs = (length (filter (\<lambda>b. language b = []) bs) \<le> 1)"

text \<open>
  The two sides of the exclusivity invariant: the all button (the one the script
  finds) is pressed; some specific button is pressed.
\<close>

definition all_pressed :: "button list \<Rightarrow> bool" where
  "all_pressed bs = (case allButton bs of None \<Rightarrow> False | Some a \<Rightarrow> is_pressed (bs ! a))"

definition specific_pressed :: "button list \<Rightarrow> bool" where
  "specific_pressed bs = list_ex (\<lambda>b. language b \<noteq> [] \<and> is_pressed b) bs"

text \<open>
  A button of a category no card has: its lower-cased value is not empty and is the
  lower-cased category of no card (a card without category counting as \<open>unknown\<close>).
\<close>

definition unavailable :: "page \<Rightarrow> button \<Rightarrow> bool" where
  "unavailable p b =
     (toLowerCase (language b) \<noteq> [] \<and> toLowerCase (language b) \<notin> availableLanguages p)"

text \<open>No click of \<open>es\<close> goes to a button that is hidden once the script has run.\<close>

definition clicks_on_shown :: "page \<Rightarrow> event list \<Rightarrow> bool" where
  "clicks_on_shown p es =
     list_all (\<lambda>e. case e of
                     Input _ \<Rightarrow> True
                   | Click i \<Rightarrow> i < length (languageFilters p) \<and>
                       \<not> button_hidden (languageFilters (main p) ! i)) es"

text \<open>
  The sections of a page in which the sections at the positions \<open>K\<close> have no
  summary element.
\<close>

definition without_summaries :: "nat set \<Rightarrow> repo_section list \<Rightarrow> repo_section list" where
  "without_summaries K secs =
     map (\<lambda>i. if i \<in> K then (secs ! i)\<lparr>sectionCount := None\<rparr> else secs ! i) [0..<length secs]"

section \<open>Derived forms of the closures\<close>

text \<open>
  Closed forms of what the loops compute, and the invariants of the event loop. They
  serve the proofs; the statements about the script are made with the definitions
  above.
\<close>

text \<open>The clicked specific button with its pressed state flipped, the other buttons as they were.\<close>

definition flipped :: "nat \<Rightarrow> button list \<Rightarrow> button list" where
  "flipped i bs = bs[i := setButtonPressed (bs ! i) (\<not> is_pressed (bs ! i))]"

text \<open>What the loop over \<open>cards\<close> does to one card.\<close>

definition showCard :: "string \<Rightarrow> string set \<Rightarrow> card \<Rightarrow> card" where
  "showCard q A c = (if has_repo_name c then c\<lparr>card_hidden := \<not> isVisible q A c\<rparr> else c)"

text \<open>The text written into the summary of the section at position \<open>i\<close>.\<close>

definition summaryText :: "card list \<Rightarrow> nat \<Rightarrow> section_count \<Rightarrow> string" where
  "summaryText cs i sc =
     ''Repositories: '' @ show_nat (length (visibleCardsIn cs i)) @ ''/'' @
       show_number (parseInt10 (or_else (total sc) ''0''))"

text \<open>What the loop over the summaries does to the section at position \<open>j\<close>.\<close>

definition countStep :: "card list \<Rightarrow> nat \<Rightarrow> repo_section \<Rightarrow> repo_section" where
  "countStep cs j s =
     (case sectionCount s of
        None \<Rightarrow> s
      | Some sc \<Rightarrow> s\<lparr>sectionCount := Some (sc\<lparr>count_text := summaryText cs j sc\<rparr>)\<rparr>)"

text \<open>\<open>isFiltering\<close>, for the input value \<open>v\<close>.\<close>

definition filtering :: "string \<Rightarrow> page \<Rightarrow> bool" where
  "filtering v p = (toLowerCase (trim v) \<noteq> [] \<or> selectedLanguages (languageFilters p) \<noteq> {})"

text \<open>The buttons \<open>applyLanguageAvailability\<close> leaves behind.\<close>

definition availabilityResult :: "page \<Rightarrow> button list" where
  "availabilityResult p =
     (let bs = map (availabilityStep (availableLanguages p)) (languageFilters p)
      in case allButton (languageFilters p) of
           None \<Rightarrow> bs
         | Some a \<Rightarrow> if specific_pressed bs then bs else bs[a := setButtonPressed (bs ! a) True])"

text \<open>
  Two summary elements that differ at most in their text; a page \<open>q\<close> with the
  text input, as many cards and sections as \<open>p\<close>, and the same summary elements up
  to their text.
\<close>

definition same_summary :: "section_count option \<Rightarrow> section_count option \<Rightarrow> bool" where
  "same_summary x y =
     (map_option (\<lambda>sc. sc\<lparr>count_text := []\<rparr>) x = map_option (\<lambda>sc. sc\<lparr>count_text := []\<rparr>) y)"

definition same_layout :: "page \<Rightarrow> page \<Rightarrow> bool" where
  "same_layout p q =
     (searchInput q \<noteq> None \<and>
      length (cards q) = length (cards p) \<and>
      length (sections q) = length (sections p) \<and>
      (\<forall>i<length (sections p).
         same_summary (sectionCount (sections p ! i)) (sectionCount (sections q ! i))) \<and>
      (totalCountLabel q = None) = (totalCountLabel p = None))"

text \<open>
  Buttons with the categories of the page's buttons, hidden as the availability pass
  left them, and none of them pressed that stands for a category no card has.
\<close>

definition settled :: "page \<Rightarrow> button list \<Rightarrow> bool" where
  "settled p bs =
     (map language bs = map language (languageFilters p) \<and>
      map button_hidden bs = map button_hidden (availabilityResult p) \<and>
      (\<forall>j<length bs. unavailable p (bs ! j) \<longrightarrow> \<not> is_pressed (bs ! j)))"

section \<open>Example pages\<close>

definition alpha :: card where
  "alpha = \<lparr>repoName = Some ''alpha'', repoLanguage = Some ''Rust'',
            repoDescription = Some ''CLI tool'', card_hidden = False, card_sections = [0]\<rparr>"

definition beta :: card where
  "beta = \<lparr>repoName = Some ''beta'', repoLanguage = Some ''Go'',
           repoDescription = Some ''server'', card_hidden = True, card_sections = [1]\<rparr>"

text \<open>A card without category whose name contains the word \<open>unknown\<close>.\<close>

definition ghost :: card where
  "ghost = \<lparr>repoName = Some ''unknown-pleasures'', repoLanguage = None,
            repoDescription = None, card_hidden = False, card_sections = [1]\<rparr>"

definition filter_button :: "string \<Rightarrow> button" where
  "filter_button l =
     \<lparr>language = l, aria_pressed = Some ''false'', is_active = False, button_hidden = False\<rparr>"

text \<open>
  Two cards in two sections, the first section with a summary; an all button and the
  buttons \<open>rust\<close>, \<open>go\<close> and \<open>kotlin\<close>, the last one a category of no card.
\<close>

definition demo :: page where
  "demo =
     \<lparr>searchInput = Some [],
      repo_cards = [alpha, beta],
      sections =
        [\<lparr>section_hidden = False,
          sectionCount = Some \<lparr>total = Some ''1'', count_text = []\<rparr>\<rparr>,
         \<lparr>section_hidden = True, sectionCount = None\<rparr>],
      emptyState = Some False,
      totalCountLabel = Some [],
      languageFilters =
        [filter_button [], filter_button ''rust'', filter_button ''go'', filter_button ''kotlin'']\<rparr>"

text \<open>The two cards and two sections alone: no indicator, no summaries, no buttons.\<close>

definition bare :: page where
  "bare =
     \<lparr>searchInput = Some [],
      repo_cards = [alpha, beta],
      sections =
        [\<lparr>section_hidden = False, sectionCount = None\<rparr>,
         \<lparr>section_hidden = False, sectionCount = None\<rparr>],
      emptyState = None,
      totalCountLabel = None,
      languageFilters = []\<rparr>"

section \<open>Facts about the primitives and the closures\<close>

subsection \<open>The substring test and the loop over the cards\<close>

lemma includes_sublist: "includes_str s q = sublist q s"
  by (induction s) (auto simp: sublist_Cons_right)

lemma cardLoop_fst:
  "fst (cardLoop q A cs n) =
     map (\<lambda>c. if has_repo_name c then c\<lparr>card_hidden := \<not> isVisible q A c\<rparr> else c) cs"
  by (induction cs arbitrary: n) (simp_all add: Let_def case_prod_beta)

lemma cardLoop_snd:
  "snd (cardLoop q A cs n) = n + length (filter (isVisible q A) (filter has_repo_name cs))"
  by (induction cs arbitrary: n) (simp_all add: Let_def case_prod_beta)

lemma repo_cards_applyFilter:
  "repo_cards (applyFilter tc v p) =
     map (\<lambda>c. if has_repo_name c
               then c\<lparr>card_hidden := \<not> isVisible (toLowerCase (trim v)) (selectedLanguages (languageFilters p)) c\<rparr>
               else c) (repo_cards p)"
  unfolding applyFilter_def Let_def
  by (simp add: case_prod_beta cardLoop_fst)

subsection \<open>Buttons and the click handler\<close>

lemma finite_selectedLanguages: "finite (selectedLanguages bs)"
  by (simp add: selectedLanguages_def)

lemma card_selected_pos: "(0 < card (selectedLanguages bs)) = (selectedLanguages bs \<noteq> {})"
  by (simp add: card_gt_0_iff finite_selectedLanguages)

lemma findIndex_Some:
  "findIndex P xs = Some a \<Longrightarrow> a < length xs \<and> P (xs ! a) \<and> (\<forall>j<a. \<not> P (xs ! j))"
proof (induction xs arbitrary: a)
  case Nil
  then show ?case by simp
next
  case (Cons x xs)
  show ?case
  proof (cases "P x")
    case True
    with Cons.prems show ?thesis by simp
  next
    case False
    with Cons.prems obtain b where b: "findIndex P xs = Some b" and a: "a = Suc b"
      by auto
    from Cons.IH[OF b] False a show ?thesis
      by (auto simp: nth_Cons split: nat.splits)
  qed
qed

lemma findIndex_None: "findIndex P xs = None \<Longrightarrow> \<forall>x\<in>set xs. \<not> P x"
  by (induction xs) (auto split: if_splits)

lemma findIndex_cong_map:
  "map f xs = map f ys \<Longrightarrow> findIndex (\<lambda>x. Q (f x)) xs = findIndex (\<lambda>x. Q (f x)) ys"
proof (induction xs arbitrary: ys)
  case Nil
  then show ?case by simp
next
  case (Cons x xs)
  then obtain y ys' where "ys = y # ys'" by (cases ys) auto
  with Cons show ?case by auto
qed

lemma language_setButtonPressed [simp]: "language (setButtonPressed b x) = language b"
  by (simp add: setButtonPressed_def)

lemma is_pressed_setButtonPressed [simp]: "is_pressed (setButtonPressed b x) = x"
  by (simp add: setButtonPressed_def is_pressed_def)

lemma button_hidden_setButtonPressed [simp]: "button_hidden (setButtonPressed b x) = button_hidden b"
  by (simp add: setButtonPressed_def)

lemma length_clickButtons [simp]: "length (clickButtons i bs) = length bs"
  by (simp add: clickButtons_def Let_def split: option.splits)

lemma allButton_bound: "allButton bs = Some a \<Longrightarrow> a < length bs \<and> language (bs ! a) = []"
  unfolding allButton_def by (drule findIndex_Some) simp

lemma map_language_update:
  "map language (xs[k := setButtonPressed (xs ! k) x]) = map language xs"
  by (cases "k < length xs") (simp_all add: map_update list_update_same_conv list_update_beyond)

lemma setButtonPressed_twice [simp]:
  "setButtonPressed (setButtonPressed b x) y = setButtonPressed b y"
  by (simp add: setButtonPressed_def)

lemma specific_pressed_nth:
  "specific_pressed bs = (\<exists>j<length bs. language (bs ! j) \<noteq> [] \<and> is_pressed (bs ! j))"
  unfolding specific_pressed_def list_ex_iff by (metis in_set_conv_nth)

lemma selected_empty_iff: "(selectedLanguages bs = {}) = (\<not> specific_pressed bs)"
  by (auto simp: selectedLanguages_def specific_pressed_def list_ex_iff filter_empty_conv)

lemma specific_pressed_update_all:
  assumes "a < length bs" "language (bs ! a) = []"
  shows "specific_pressed (bs[a := setButtonPressed (bs ! a) x]) = specific_pressed bs"
proof -
  have "language (bs[a := setButtonPressed (bs ! a) x] ! j) \<noteq> [] \<and>
        is_pressed (bs[a := setButtonPressed (bs ! a) x] ! j) \<longleftrightarrow>
        language (bs ! j) \<noteq> [] \<and> is_pressed (bs ! j)" if "j < length bs" for j
    using that assms by (cases "j = a") simp_all
  then show ?thesis
    unfolding specific_pressed_nth by auto
qed

lemma clickButtons_on_all:
  "language (bs ! i) = [] \<Longrightarrow>
   clickButtons i bs = map (\<lambda>b. setButtonPressed b (language b = [])) bs"
  by (simp add: clickButtons_def)

lemma clickButtons_no_all:
  "language (bs ! i) \<noteq> [] \<Longrightarrow> allButton bs = None \<Longrightarrow> clickButtons i bs = flipped i bs"
  by (simp add: clickButtons_def flipped_def is_pressed_def)

lemma clickButtons_with_all:
  assumes "i < length bs" "language (bs ! i) \<noteq> []" "allButton bs = Some a"
  shows "clickButtons i bs =
     (flipped i bs)[a := setButtonPressed (bs ! a) (\<not> specific_pressed (flipped i bs))]"
proof -
  from allButton_bound[OF assms(3)] have a: "a < length bs" "language (bs ! a) = []" by auto
  with assms(2) have ia: "i \<noteq> a" by auto
  let ?f = "flipped i bs"
  have fa: "?f ! a = bs ! a" using ia by (simp add: flipped_def)
  have lf: "a < length ?f" "language (?f ! a) = []" using a fa by (simp_all add: flipped_def)
  let ?r = "?f[a := setButtonPressed (?f ! a) False]"
  have sp: "specific_pressed ?r = specific_pressed ?f"
    by (rule specific_pressed_update_all[OF lf])
  have ra: "?r ! a = setButtonPressed (bs ! a) False" using lf(1) fa by simp
  have "clickButtons i bs = (if specific_pressed ?r then ?r else ?r[a := setButtonPressed (?r ! a) True])"
    using assms(2,3)
    by (simp add: clickButtons_def Let_def flipped_def is_pressed_def card_selected_pos selected_empty_iff)
  also have "\<dots> = ?f[a := setButtonPressed (bs ! a) (\<not> specific_pressed ?f)]"
    unfolding sp ra by (simp add: fa)
  finally show ?thesis .
qed

lemma language_clickButtons:
  assumes "i < length bs"
  shows "map language (clickButtons i bs) = map language bs"
proof (cases "language (bs ! i) = []")
  case True
  then show ?thesis by (simp add: clickButtons_on_all)
next
  case False
  have fl: "map language (flipped i bs) = map language bs"
    unfolding flipped_def by (rule map_language_update)
  show ?thesis
  proof (cases "allButton bs")
    case None
    with False fl show ?thesis by (simp add: clickButtons_no_all)
  next
    case (Some a)
    from allButton_bound[OF Some] False have ia: "i \<noteq> a" by auto
    then have "(flipped i bs) ! a = bs ! a" by (simp add: flipped_def)
    then have "map language ((flipped i bs)[a := setButtonPressed (bs ! a) (\<not> specific_pressed (flipped i bs))])
        = map language (flipped i bs)"
      using map_language_update[of "flipped i bs" a] by simp
    with fl show ?thesis
      by (simp add: clickButtons_with_all[OF assms False Some])
  qed
qed

lemma allButton_map_language: "map language bs = map language bs' \<Longrightarrow> allButton bs = allButton bs'"
  unfolding allButton_def by (rule findIndex_cong_map)

lemma allButton_clickButtons: "i < length bs \<Longrightarrow> allButton (clickButtons i bs) = allButton bs"
  by (rule allButton_map_language) (rule language_clickButtons)

lemma languageFilters_applyFilter [simp]:
  "languageFilters (applyFilter tc v p) = languageFilters p"
  by (simp add: applyFilter_def Let_def case_prod_beta)

lemma languageFilters_click:
  "searchInput p = Some v \<Longrightarrow> i < length (languageFilters p) \<Longrightarrow>
   languageFilters (dispatch tc (Click i) p) = clickButtons i (languageFilters p)"
  by (simp add: dispatch_def)

lemma clickButtons_exclusive:
  assumes "i < length bs" and "allButton bs = Some a"
  shows "all_pressed (clickButtons i bs) = (\<not> specific_pressed (clickButtons i bs))"
proof -
  from allButton_bound[OF assms(2)] have a: "a < length bs" "language (bs ! a) = []" by auto
  have ab: "allButton (clickButtons i bs) = Some a"
    using allButton_clickButtons[OF assms(1)] assms(2) by simp
  show ?thesis
  proof (cases "language (bs ! i) = []")
    case True
    have "\<not> specific_pressed (map (\<lambda>b. setButtonPressed b (language b = [])) bs)"
      by (simp add: specific_pressed_nth)
    moreover have "all_pressed (map (\<lambda>b. setButtonPressed b (language b = [])) bs)"
      using ab a by (simp add: all_pressed_def clickButtons_on_all[OF True])
    ultimately show ?thesis by (simp add: clickButtons_on_all[OF True])
  next
    case False
    with a have ia: "i \<noteq> a" by auto
    let ?f = "flipped i bs"
    have fa: "?f ! a = bs ! a" using ia by (simp add: flipped_def)
    have lf: "a < length ?f" "language (?f ! a) = []" using a fa by (simp_all add: flipped_def)
    have cb: "clickButtons i bs = ?f[a := setButtonPressed (?f ! a) (\<not> specific_pressed ?f)]"
      by (simp add: clickButtons_with_all[OF assms(1) False assms(2)] fa)
    have "specific_pressed (clickButtons i bs) = specific_pressed ?f"
      unfolding cb by (rule specific_pressed_update_all[OF lf])
    moreover have "all_pressed (clickButtons i bs) = (\<not> specific_pressed ?f)"
      using ab lf(1) by (simp add: all_pressed_def) (simp add: cb)
    ultimately show ?thesis by simp
  qed
qed

subsection \<open>The reference transition\<close>

lemma filter_le_one_unique:
  "length (filter P xs) \<le> 1 \<Longrightarrow> j < length xs \<Longrightarrow> k < length xs \<Longrightarrow>
   P (xs ! j) \<Longrightarrow> P (xs ! k) \<Longrightarrow> j = k"
proof (induction xs arbitrary: j k)
  case Nil
  then show ?case by simp
next
  case (Cons x xs)
  show ?case
  proof (cases "P x")
    case True
    with Cons.prems(1) have "filter P xs = []" by simp
    then have none: "\<forall>y\<in>set xs. \<not> P y" by (simp add: filter_empty_conv)
    have "j = 0"
    proof (cases j)
      case (Suc j')
      with Cons.prems(2,4) none show ?thesis by (auto dest: nth_mem)
    qed simp
    moreover have "k = 0"
    proof (cases k)
      case (Suc k')
      with Cons.prems(3,5) none show ?thesis by (auto dest: nth_mem)
    qed simp
    ultimately show ?thesis by simp
  next
    case False
    with Cons.prems obtain j' k' where jk: "j = Suc j'" "k = Suc k'"
      by (cases j; cases k) auto
    with Cons.prems False have "j' = k'"
      by (intro Cons.IH) auto
    with jk show ?thesis by simp
  qed
qed

lemma spec_set_all_none:
  "\<forall>t\<in>set ts. fst t \<noteq> [] \<Longrightarrow> spec_set_all x ts = ts"
  by (simp add: spec_set_all_def map_idI)

lemma spec_set_all_single:
  assumes "a < length ts" "fst (ts ! a) = []" "\<forall>j<length ts. j \<noteq> a \<longrightarrow> fst (ts ! j) \<noteq> []"
  shows "spec_set_all x ts = ts[a := ([], x)]"
proof (rule nth_equalityI)
  show "length (spec_set_all x ts) = length (ts[a := ([], x)])"
    by (simp add: spec_set_all_def)
next
  fix j assume "j < length (spec_set_all x ts)"
  then have j: "j < length ts" by (simp add: spec_set_all_def)
  show "spec_set_all x ts ! j = ts[a := ([], x)] ! j"
    using j assms by (cases "j = a") (simp_all add: spec_set_all_def)
qed

lemma length_toggles [simp]: "length (toggles bs) = length bs"
  by (simp add: toggles_def)

lemma toggles_update:
  "toggles (bs[k := b]) = (toggles bs)[k := (language b, is_pressed b)]"
  by (simp add: toggles_def map_update)

lemma toggles_flipped:
  "i < length bs \<Longrightarrow>
   toggles (flipped i bs) = (toggles bs)[i := (fst (toggles bs ! i), \<not> snd (toggles bs ! i))]"
  by (simp add: flipped_def toggles_update) (simp add: toggles_def)

lemma spec_selected_toggles: "spec_selected (toggles bs) = selectedLanguages bs"
  by (simp add: spec_selected_def toggles_def selectedLanguages_def filter_map comp_def)

lemma spec_selected_empty:
  "(spec_selected ts = {}) = (\<not> list_ex (\<lambda>t. fst t \<noteq> [] \<and> snd t) ts)"
  by (simp add: spec_selected_def list_ex_iff filter_empty_conv) force

lemma spec_selected_update_all:
  assumes "a < length ts" "fst (ts ! a) = []"
  shows "spec_selected (ts[a := ([], x)]) = spec_selected ts"
proof -
  have "filter (\<lambda>t. fst t \<noteq> [] \<and> snd t) (ts[a := ([], x)]) = filter (\<lambda>t. fst t \<noteq> [] \<and> snd t) ts"
    using assms
  proof (induction ts arbitrary: a)
    case Nil
    then show ?case by simp
  next
    case (Cons t ts)
    then show ?case by (cases a) auto
  qed
  then show ?thesis by (simp add: spec_selected_def)
qed

subsection \<open>One recomputation\<close>

lemma cardLoop_fst': "fst (cardLoop q A cs n) = map (showCard q A) cs"
  by (simp add: cardLoop_fst showCard_def)

lemma isVisible_hidden [simp]: "isVisible q A (c\<lparr>card_hidden := x\<rparr>) = isVisible q A c"
  by (simp add: isVisible_def searchableText_def cardLanguage_def)

lemma has_repo_name_hidden [simp]: "has_repo_name (c\<lparr>card_hidden := x\<rparr>) = has_repo_name c"
  by (simp add: has_repo_name_def)

lemma isVisible_showCard [simp]: "isVisible q A (showCard q' A' c) = isVisible q A c"
  by (simp add: showCard_def)

lemma has_repo_name_showCard [simp]: "has_repo_name (showCard q A c) = has_repo_name c"
  by (simp add: showCard_def)

lemma showCard_idem [simp]: "showCard q A (showCard q A c) = showCard q A c"
  by (simp add: showCard_def)

lemma card_sections_showCard [simp]: "card_sections (showCard q A c) = card_sections c"
  by (simp add: showCard_def)

lemma card_hidden_showCard:
  "has_repo_name c \<Longrightarrow> card_hidden (showCard q A c) = (\<not> isVisible q A c)"
  by (simp add: showCard_def)

lemma filter_showCard:
  "filter has_repo_name (map (showCard q A) cs) = map (showCard q A) (filter has_repo_name cs)"
  by (simp add: filter_map comp_def)

lemma visible_count:
  "length (filter (\<lambda>c. \<not> card_hidden c) (filter has_repo_name (map (showCard q A) cs))) =
   length (filter (isVisible q A) (filter has_repo_name cs))"
proof -
  have "filter (\<lambda>c. \<not> card_hidden c) (map (showCard q A) (filter has_repo_name cs)) =
        map (showCard q A) (filter (isVisible q A) (filter has_repo_name cs))"
    by (induction cs) (simp_all add: card_hidden_showCard)
  then show ?thesis
    by (simp add: filter_showCard del: filter_filter)
qed

lemma length_sectionLoop [simp]: "length (sectionLoop F cs secs) = length secs"
  by (simp add: sectionLoop_def)

lemma length_countLoop [simp]: "length (countLoop cs secs) = length secs"
  by (simp add: countLoop_def)

lemma nth_sectionLoop:
  "i < length secs \<Longrightarrow>
   sectionLoop F cs secs ! i = (secs ! i)\<lparr>section_hidden := (F \<and> visibleCardsIn cs i = [])\<rparr>"
  by (simp add: sectionLoop_def)

lemma nth_countLoop:
  "i < length secs \<Longrightarrow>
   countLoop cs secs ! i =
     (case sectionCount (secs ! i) of
        None \<Rightarrow> secs ! i
      | Some sc \<Rightarrow> (secs ! i)\<lparr>sectionCount := Some (sc\<lparr>count_text := summaryText cs i sc\<rparr>)\<rparr>)"
  by (simp add: countLoop_def summaryText_def Let_def split: option.splits)

lemma repo_cards_applyFilter':
  "repo_cards (applyFilter tc v p) =
     map (showCard (toLowerCase (trim v)) (selectedLanguages (languageFilters p))) (repo_cards p)"
  by (simp add: repo_cards_applyFilter showCard_def)

lemma sections_applyFilter:
  "sections (applyFilter tc v p) =
     countLoop (repo_cards (applyFilter tc v p))
       (sectionLoop (filtering v p) (repo_cards (applyFilter tc v p)) (sections p))"
  by (simp add: applyFilter_def Let_def case_prod_beta filtering_def card_selected_pos)

lemma visibleCards_applyFilter:
  "snd (cardLoop (toLowerCase (trim v)) (selectedLanguages (languageFilters p)) (repo_cards p) 0) =
   length (filter (\<lambda>c. \<not> card_hidden c) (cards (applyFilter tc v p)))"
  by (simp add: cardLoop_snd cards_def repo_cards_applyFilter' visible_count del: filter_filter)

lemma emptyState_applyFilter:
  "emptyState (applyFilter tc v p) =
     (case emptyState p of
        None \<Rightarrow> None
      | Some _ \<Rightarrow> Some (\<not> filtering v p \<or>
          0 < length (filter (\<lambda>c. \<not> card_hidden c) (cards (applyFilter tc v p)))))"
  unfolding visibleCards_applyFilter[symmetric, where v=v and p=p]
  by (simp add: applyFilter_def Let_def case_prod_beta filtering_def card_selected_pos
      split: option.splits)

lemma totalCountLabel_applyFilter:
  "totalCountLabel (applyFilter tc v p) =
     (case totalCountLabel p of
        None \<Rightarrow> None
      | Some _ \<Rightarrow> Some (''Public repositories: '' @
          show_nat (length (filter (\<lambda>c. \<not> card_hidden c) (cards (applyFilter tc v p)))) @
          ''/'' @ show_nat tc))"
  unfolding visibleCards_applyFilter[symmetric, where v=v and p=p]
  by (simp add: applyFilter_def Let_def case_prod_beta)

lemma searchInput_applyFilter [simp]: "searchInput (applyFilter tc v p) = searchInput p"
  by (simp add: applyFilter_def Let_def case_prod_beta)

lemma more_applyFilter [simp]: "page.more (applyFilter tc v p) = page.more p"
  by (simp add: applyFilter_def Let_def case_prod_beta)

lemma length_sections_applyFilter [simp]:
  "length (sections (applyFilter tc v p)) = length (sections p)"
  by (simp add: sections_applyFilter)

lemma nth_sections_applyFilter:
  assumes "i < length (sections p)"
  shows "sections (applyFilter tc v p) ! i =
     (case sectionCount (sections p ! i) of
        None \<Rightarrow> (sections p ! i)
          \<lparr>section_hidden := (filtering v p \<and> visibleCardsIn (repo_cards (applyFilter tc v p)) i = [])\<rparr>
      | Some sc \<Rightarrow> (sections p ! i)
          \<lparr>section_hidden := (filtering v p \<and> visibleCardsIn (repo_cards (applyFilter tc v p)) i = []),
           sectionCount := Some (sc\<lparr>count_text := summaryText (repo_cards (applyFilter tc v p)) i sc\<rparr>)\<rparr>)"
  using assms
  by (simp add: sections_applyFilter nth_countLoop nth_sectionLoop split: option.splits)

lemma selected_applyFilter [simp]: "filtering v (applyFilter tc v' p) = filtering v p"
  by (simp add: filtering_def)

lemma applyFilter_idem: "applyFilter totalCount v (applyFilter totalCount v p) = applyFilter totalCount v p"
proof (rule page.equality)
  let ?p = "applyFilter totalCount v p"
  show rc: "repo_cards (applyFilter totalCount v ?p) = repo_cards ?p"
    by (simp add: repo_cards_applyFilter' comp_def)
  show "sections (applyFilter totalCount v ?p) = sections ?p"
  proof (rule nth_equalityI)
    show "length (sections (applyFilter totalCount v ?p)) = length (sections ?p)" by simp
  next
    fix i assume "i < length (sections (applyFilter totalCount v ?p))"
    then have i: "i < length (sections p)" "i < length (sections ?p)" by simp_all
    show "sections (applyFilter totalCount v ?p) ! i = sections ?p ! i"
      unfolding nth_sections_applyFilter[OF i(2)] rc
      unfolding nth_sections_applyFilter[OF i(1)]
      by (simp split: option.splits add: summaryText_def)
  qed
  have cs: "cards (applyFilter totalCount v ?p) = cards ?p"
    by (simp add: cards_def rc)
  show "emptyState (applyFilter totalCount v ?p) = emptyState ?p"
    unfolding emptyState_applyFilter[of totalCount v ?p] cs
    by (simp add: emptyState_applyFilter[of totalCount v p] split: option.splits)
  show "totalCountLabel (applyFilter totalCount v ?p) = totalCountLabel ?p"
    unfolding totalCountLabel_applyFilter[of totalCount v ?p] cs
    by (simp add: totalCountLabel_applyFilter[of totalCount v p] split: option.splits)
qed simp_all

subsection \<open>The availability pass\<close>

lemma toLowerCase_empty [simp]: "(toLowerCase s = []) = (s = [])"
  by (simp add: toLowerCase_def)

lemma language_availabilityStep [simp]: "language (availabilityStep A b) = language b"
  by (simp add: availabilityStep_def Let_def)

lemma availabilityStep_idem [simp]: "availabilityStep A (availabilityStep A b) = availabilityStep A b"
  by (simp add: availabilityStep_def Let_def setButtonPressed_def)

lemma availabilityStep_all:
  "language b = [] \<Longrightarrow> availabilityStep A b = b\<lparr>button_hidden := False\<rparr>"
  by (simp add: availabilityStep_def)

lemma applyLanguageAvailability_eq:
  "applyLanguageAvailability p = p\<lparr>languageFilters := availabilityResult p\<rparr>"
  by (simp add: applyLanguageAvailability_def availabilityResult_def Let_def
      card_eq_0_iff finite_selectedLanguages selected_empty_iff split: option.splits)

lemma availableLanguages_buttons [simp]:
  "availableLanguages (p\<lparr>languageFilters := bs\<rparr>) = availableLanguages p"
  by (simp add: availableLanguages_def cards_def)

lemma length_availabilityResult [simp]: "length (availabilityResult p) = length (languageFilters p)"
  by (simp add: availabilityResult_def Let_def split: option.splits)

lemma language_availabilityResult:
  "map language (availabilityResult p) = map language (languageFilters p)"
proof -
  have m: "map language (map (availabilityStep A) bs) = map language bs" for A bs
    by (simp add: comp_def)
  show ?thesis
    by (simp add: availabilityResult_def Let_def map_language_update m del: map_map
        split: option.splits)
qed

lemma allButton_availabilityResult [simp]:
  "allButton (availabilityResult p) = allButton (languageFilters p)"
  by (rule allButton_map_language) (rule language_availabilityResult)

lemma step_availabilityResult:
  "map (availabilityStep (availableLanguages p)) (availabilityResult p) = availabilityResult p"
proof -
  let ?A = "availableLanguages p"
  let ?bs = "map (availabilityStep ?A) (languageFilters p)"
  have stable: "map (availabilityStep ?A) ?bs = ?bs" by (simp add: comp_def)
  show ?thesis
  proof (cases "allButton (languageFilters p)")
    case None
    then show ?thesis using stable by (simp add: availabilityResult_def)
  next
    case (Some a)
    from allButton_bound[OF Some] have a: "a < length (languageFilters p)"
      "language (languageFilters p ! a) = []" by auto
    have "availabilityStep ?A (setButtonPressed (?bs ! a) True) = setButtonPressed (?bs ! a) True"
      using a by (simp add: availabilityStep_all setButtonPressed_def)
    then have "map (availabilityStep ?A) (?bs[a := setButtonPressed (?bs ! a) True])
        = ?bs[a := setButtonPressed (?bs ! a) True]"
      using stable by (simp add: map_update del: map_map)
    with stable Some show ?thesis by (simp add: availabilityResult_def Let_def del: map_map)
  qed
qed

lemma availability_idem:
  "applyLanguageAvailability (applyLanguageAvailability p) = applyLanguageAvailability p"
proof -
  let ?A = "availableLanguages p"
  let ?R = "availabilityResult p"
  let ?p = "p\<lparr>languageFilters := ?R\<rparr>"
  have "availabilityResult ?p = ?R"
  proof (cases "allButton (languageFilters p)")
    case None
    then show ?thesis
      using step_availabilityResult[of p] by (simp add: availabilityResult_def[of ?p])
  next
    case (Some a)
    from allButton_bound[OF Some] have a: "a < length (languageFilters p)"
      "language (languageFilters p ! a) = []" by auto
    let ?bs = "map (availabilityStep ?A) (languageFilters p)"
    have R: "?R = (if specific_pressed ?bs then ?bs else ?bs[a := setButtonPressed (?bs ! a) True])"
      using Some by (simp add: availabilityResult_def Let_def)
    have abs: "a < length ?bs" "language (?bs ! a) = []" using a by simp_all
    have sp: "specific_pressed ?R = specific_pressed ?bs"
      unfolding R using specific_pressed_update_all[OF abs, of True] by simp
    have again: "\<not> specific_pressed ?bs \<Longrightarrow> ?R[a := setButtonPressed (?R ! a) True] = ?R"
      unfolding R using abs(1) by simp
    have "availabilityResult ?p = (if specific_pressed ?R then ?R else ?R[a := setButtonPressed (?R ! a) True])"
      using Some step_availabilityResult[of p] by (simp add: availabilityResult_def[of ?p] Let_def)
    also have "\<dots> = ?R" using sp again by simp
    finally show ?thesis .
  qed
  then show ?thesis
    by (simp add: applyLanguageAvailability_eq)
qed

subsection \<open>Start-up and the event loop\<close>

lemma run_Nil: "run p [] = main p"
  by (simp add: run_def)

lemma run_snoc: "run p (es @ [e]) = dispatch (length (cards p)) e (run p es)"
  by (simp add: run_def)

lemma same_summary_refl [simp]: "same_summary x x"
  by (simp add: same_summary_def)

lemma same_summary_None [simp]: "same_summary None y = (y = None)" "same_summary x None = (x = None)"
  by (auto simp: same_summary_def)

lemma same_summary_Some:
  "same_summary (Some sc0) (Some sc) \<Longrightarrow>
   section_count.total sc = section_count.total sc0 \<and> sc\<lparr>count_text := t\<rparr> = sc0\<lparr>count_text := t\<rparr>"
  by (cases sc; cases sc0) (simp add: same_summary_def)

lemma same_summary_text [simp]:
  "same_summary x (Some (sc\<lparr>count_text := t\<rparr>)) = same_summary x (Some sc)"
  by (simp add: same_summary_def)

lemma length_cards_applyFilter [simp]: "length (cards (applyFilter tc v p)) = length (cards p)"
  by (simp add: cards_def repo_cards_applyFilter' filter_showCard del: filter_filter)

lemma same_layout_applyFilter:
  assumes "same_layout p q"
  shows "same_layout p (applyFilter tc v q)"
proof -
  have "same_summary (sectionCount (sections p ! i)) (sectionCount (sections (applyFilter tc v q) ! i))"
    if "i < length (sections p)" for i
  proof -
    from that assms have i: "i < length (sections q)"
      and s: "same_summary (sectionCount (sections p ! i)) (sectionCount (sections q ! i))"
      by (simp_all add: same_layout_def)
    show ?thesis
      using s by (cases "sectionCount (sections q ! i)") (simp_all add: nth_sections_applyFilter[OF i])
  qed
  moreover have "(totalCountLabel (applyFilter tc v q) = None) = (totalCountLabel q = None)"
    by (cases "totalCountLabel q") (simp_all add: totalCountLabel_applyFilter)
  ultimately show ?thesis
    using assms by (simp add: same_layout_def)
qed

lemma same_layout_input:
  "same_layout p q \<Longrightarrow> same_layout p (q\<lparr>searchInput := Some v\<rparr>)"
  by (simp add: same_layout_def cards_def)

lemma same_layout_buttons:
  "same_layout p q \<Longrightarrow> same_layout p (q\<lparr>languageFilters := bs\<rparr>)"
  by (simp add: same_layout_def cards_def)

lemma same_layout_refl: "searchInput p \<noteq> None \<Longrightarrow> same_layout p p"
  by (simp add: same_layout_def)

lemma run_is_recomputation:
  assumes "searchInput p = Some v"
  shows "\<exists>q v'. same_layout p q \<and> run p es = applyFilter (length (cards p)) v' q"
proof (induction es rule: rev_induct)
  case Nil
  have "same_layout p (applyLanguageAvailability p)"
    unfolding applyLanguageAvailability_eq
    using assms by (intro same_layout_buttons same_layout_refl) simp
  then show ?case
    using assms by (auto simp: run_Nil main_def)
next
  case (snoc e es)
  then obtain q v' where q: "same_layout p q" and r: "run p es = applyFilter (length (cards p)) v' q"
    by blast
  let ?r = "run p es"
  have lr: "same_layout p ?r" unfolding r by (rule same_layout_applyFilter[OF q])
  then obtain w where w: "searchInput ?r = Some w" by (auto simp: same_layout_def)
  show ?case
  proof (cases e)
    case (Input v'')
    have "run p (es @ [e]) = applyFilter (length (cards p)) v'' (?r\<lparr>searchInput := Some v''\<rparr>)"
      using w Input by (simp add: run_snoc dispatch_def)
    with same_layout_input[OF lr] show ?thesis by blast
  next
    case (Click i)
    show ?thesis
    proof (cases "i < length (languageFilters ?r)")
      case True
      have "run p (es @ [e]) =
          applyFilter (length (cards p)) w (?r\<lparr>languageFilters := clickButtons i (languageFilters ?r)\<rparr>)"
        using w Click True by (simp add: run_snoc dispatch_def)
      with same_layout_buttons[OF lr] show ?thesis by blast
    next
      case False
      then have "run p (es @ [e]) = ?r"
        using w Click by (simp add: run_snoc dispatch_def)
      with q r show ?thesis by auto
    qed
  qed
qed

subsection \<open>The example page, run\<close>

text \<open>
  The scenarios of the specification on the example page: start-up, a query that
  matches nothing, a click on the hidden button, a click on \<open>go\<close>, the query
  \<open>CLI\<close> with blanks around it.
\<close>

lemmas page_eval =
  demo_def alpha_def beta_def filter_button_def has_repo_name_def cards_def
  applyFilter_def applyLanguageAvailability_def availabilityStep_def availableLanguages_def
  cardLanguage_def searchableText_def isVisible_def or_else_def
  selectedLanguages_def is_pressed_def setButtonPressed_def allButton_def
  sectionLoop_def countLoop_def visibleCardsIn_def
  toLowerCase_def lower_char_def trim_def is_ws_def
  show_nat.simps digit_char_def show_number_def parseInt10_def is_digit_def digits_value_def digit_value_def
  main_def dispatch_def run_def clickButtons_def Let_def

lemma demo_main:
  "main demo =
     demo\<lparr>repo_cards := [alpha, beta\<lparr>card_hidden := False\<rparr>],
          sections :=
            [\<lparr>section_hidden = False,
              sectionCount = Some \<lparr>total = Some ''1'', count_text = ''Repositories: 1/1''\<rparr>\<rparr>,
             \<lparr>section_hidden = False, sectionCount = None\<rparr>],
          emptyState := Some True,
          totalCountLabel := Some ''Public repositories: 2/2'',
          languageFilters :=
            [setButtonPressed (filter_button []) True, filter_button ''rust'', filter_button ''go'',
             (filter_button ''kotlin'')\<lparr>button_hidden := True\<rparr>]\<rparr>"
  by (simp add: page_eval)

lemma demo_zzz:
  "run demo [Input ''zzz''] =
     demo\<lparr>searchInput := Some ''zzz'',
          repo_cards := [alpha\<lparr>card_hidden := True\<rparr>, beta],
          sections :=
            [\<lparr>section_hidden = True,
              sectionCount = Some \<lparr>total = Some ''1'', count_text = ''Repositories: 0/1''\<rparr>\<rparr>,
             \<lparr>section_hidden = True, sectionCount = None\<rparr>],
          emptyState := Some False,
          totalCountLabel := Some ''Public repositories: 0/2'',
          languageFilters :=
            [setButtonPressed (filter_button []) True, filter_button ''rust'', filter_button ''go'',
             (filter_button ''kotlin'')\<lparr>button_hidden := True\<rparr>]\<rparr>"
  by (simp add: page_eval)

lemma demo_kotlin:
  "run demo [Click 3] =
     demo\<lparr>repo_cards := [alpha\<lparr>card_hidden := True\<rparr>, beta],
          sections :=
            [\<lparr>section_hidden = True,
              sectionCount = Some \<lparr>total = Some ''1'', count_text = ''Repositories: 0/1''\<rparr>\<rparr>,
             \<lparr>section_hidden = True, sectionCount = None\<rparr>],
          emptyState := Some False,
          totalCountLabel := Some ''Public repositories: 0/2'',
          languageFilters :=
            [setButtonPressed (filter_button []) False, filter_button ''rust'', filter_button ''go'',
             setButtonPressed ((filter_button ''kotlin'')\<lparr>button_hidden := True\<rparr>) True]\<rparr>"
  by (simp add: page_eval)

lemma demo_go:
  "run demo [Click 2] =
     demo\<lparr>repo_cards := [alpha\<lparr>card_hidden := True\<rparr>, beta\<lparr>card_hidden := False\<rparr>],
          sections :=
            [\<lparr>section_hidden = True,
              sectionCount = Some \<lparr>total = Some ''1'', count_text = ''Repositories: 0/1''\<rparr>\<rparr>,
             \<lparr>section_hidden = False, sectionCount = None\<rparr>],
          emptyState := Some True,
          totalCountLabel := Some ''Public repositories: 1/2'',
          languageFilters :=
            [setButtonPressed (filter_button []) False, filter_button ''rust'',
             setButtonPressed (filter_button ''go'') True,
             (filter_button ''kotlin'')\<lparr>button_hidden := True\<rparr>]\<rparr>"
  by (simp add: page_eval)

lemma demo_cli:
  "run demo [Input '' CLI ''] =
     demo\<lparr>searchInput := Some '' CLI '',
          repo_cards := [alpha, beta],
          sections :=
            [\<lparr>section_hidden = False,
              sectionCount = Some \<lparr>total = Some ''1'', count_text = ''Repositories: 1/1''\<rparr>\<rparr>,
             \<lparr>section_hidden = True, sectionCount = None\<rparr>],
          emptyState := Some True,
          totalCountLabel := Some ''Public repositories: 1/2'',
          languageFilters :=
            [setButtonPressed (filter_button []) True, filter_button ''rust'', filter_button ''go'',
             (filter_button ''kotlin'')\<lparr>button_hidden := True\<rparr>]\<rparr>"
  by (simp add: page_eval)

subsection \<open>A query without blanks and the blanks of the searchable text\<close>

lemma sublist_across_space:
  assumes "q \<noteq> []" "CHR '' '' \<notin> set q"
  shows "sublist q (xs @ CHR '' '' # ys) = (sublist q xs \<or> sublist q ys)"
proof -
  have np: "\<not> prefix q' (CHR '' '' # zs)" if "q' \<noteq> []" "set q' \<subseteq> set q" for q' zs
  proof
    assume "prefix q' (CHR '' '' # zs)"
    with that(1) have "hd q' = CHR '' ''" by (cases q') (auto simp: prefix_def)
    with that assms(2) show False by (cases q') auto
  qed
  have tail: "sublist q (CHR '' '' # ys) = sublist q ys"
    using np[of q ys] assms(1) by (simp add: sublist_Cons_right)
  have "sublist q xs" if "q = xs1 @ xs2" "suffix xs1 xs" "prefix xs2 (CHR '' '' # ys)" for xs1 xs2
  proof (cases "xs2 = []")
    case True
    with that(1,2) show ?thesis by (simp add: suffix_imp_sublist)
  next
    case False
    with np[of xs2 ys] that(1,3) show ?thesis by auto
  qed
  then show ?thesis
    unfolding sublist_append tail by blast
qed

subsection \<open>Buttons of categories no card has\<close>

lemma unavailable_language: "language b = language b' \<Longrightarrow> unavailable p b = unavailable p b'"
  by (simp add: unavailable_def)

lemma unavailable_specific: "unavailable p b \<Longrightarrow> language b \<noteq> []"
  by (auto simp: unavailable_def)

lemma button_hidden_update:
  "map button_hidden (xs[k := setButtonPressed (xs ! k) x]) = map button_hidden xs"
  by (cases "k < length xs") (simp_all add: map_update list_update_same_conv list_update_beyond)

lemma nth_availabilityResult:
  assumes "j < length (languageFilters p)"
  shows "button_hidden (availabilityResult p ! j) = unavailable p (languageFilters p ! j)"
    and "unavailable p (languageFilters p ! j) \<Longrightarrow> \<not> is_pressed (availabilityResult p ! j)"
    and "language (availabilityResult p ! j) = language (languageFilters p ! j)"
proof -
  let ?A = "availableLanguages p"
  let ?bs = "map (availabilityStep ?A) (languageFilters p)"
  have h: "button_hidden (?bs ! j) = unavailable p (languageFilters p ! j)"
    using assms by (simp add: availabilityStep_def unavailable_def Let_def)
  have u: "unavailable p (languageFilters p ! j) \<Longrightarrow> \<not> is_pressed (?bs ! j)"
    using assms by (simp add: availabilityStep_def unavailable_def Let_def)
  have l: "language (?bs ! j) = language (languageFilters p ! j)"
    using assms by simp
  show "button_hidden (availabilityResult p ! j) = unavailable p (languageFilters p ! j)"
  proof -
    have "map button_hidden (availabilityResult p) = map button_hidden ?bs"
      by (simp add: availabilityResult_def Let_def button_hidden_update del: map_map
          split: option.splits)
    then have "button_hidden (availabilityResult p ! j) = button_hidden (?bs ! j)"
      using assms by (metis length_availabilityResult length_map nth_map)
    with h show ?thesis by simp
  qed
  show "\<not> is_pressed (availabilityResult p ! j)" if un: "unavailable p (languageFilters p ! j)"
  proof (cases "allButton (languageFilters p)")
    case None
    with u[OF un] show ?thesis by (simp add: availabilityResult_def)
  next
    case (Some a)
    from allButton_bound[OF Some] unavailable_specific[OF un] have "j \<noteq> a" by auto
    with u[OF un] Some show ?thesis by (simp add: availabilityResult_def Let_def)
  qed
  show "language (availabilityResult p ! j) = language (languageFilters p ! j)"
    using language_availabilityResult[of p] assms
    by (metis length_availabilityResult nth_map)
qed

lemma settled_availabilityResult: "settled p (availabilityResult p)"
  unfolding settled_def
proof (intro conjI allI impI)
  show "map language (availabilityResult p) = map language (languageFilters p)"
    by (rule language_availabilityResult)
  show "map button_hidden (availabilityResult p) = map button_hidden (availabilityResult p)" ..
  fix j assume j: "j < length (availabilityResult p)" and u: "unavailable p (availabilityResult p ! j)"
  from j have j': "j < length (languageFilters p)" by simp
  from u unavailable_language[OF nth_availabilityResult(3)[OF j'], of p]
  have "unavailable p (languageFilters p ! j)" by simp
  then show "\<not> is_pressed (availabilityResult p ! j)"
    by (rule nth_availabilityResult(2)[OF j'])
qed

lemma button_hidden_clickButtons:
  assumes "i < length bs"
  shows "map button_hidden (clickButtons i bs) = map button_hidden bs"
proof (cases "language (bs ! i) = []")
  case True
  then show ?thesis by (simp add: clickButtons_on_all)
next
  case False
  have fl: "map button_hidden (flipped i bs) = map button_hidden bs"
    unfolding flipped_def by (rule button_hidden_update)
  show ?thesis
  proof (cases "allButton bs")
    case None
    with False fl show ?thesis by (simp add: clickButtons_no_all)
  next
    case (Some a)
    from allButton_bound[OF Some] False have ia: "i \<noteq> a" by auto
    then have "(flipped i bs) ! a = bs ! a" by (simp add: flipped_def)
    then have "map button_hidden ((flipped i bs)[a := setButtonPressed (bs ! a) (\<not> specific_pressed (flipped i bs))])
        = map button_hidden (flipped i bs)"
      using button_hidden_update[of "flipped i bs" a] by simp
    with fl show ?thesis
      by (simp add: clickButtons_with_all[OF assms False Some])
  qed
qed

lemma is_pressed_clickButtons_other:
  assumes "i < length bs" "j < length bs" "j \<noteq> i" "language (bs ! j) \<noteq> []"
  shows "is_pressed (clickButtons i bs ! j) = (language (bs ! i) \<noteq> [] \<and> is_pressed (bs ! j))"
proof (cases "language (bs ! i) = []")
  case True
  with assms show ?thesis by (simp add: clickButtons_on_all)
next
  case False
  show ?thesis
  proof (cases "allButton bs")
    case None
    with False assms show ?thesis by (simp add: clickButtons_no_all flipped_def)
  next
    case (Some a)
    from allButton_bound[OF Some] assms(4) have "j \<noteq> a" by auto
    with False assms show ?thesis
      by (simp add: clickButtons_with_all[OF assms(1) False Some] flipped_def)
  qed
qed

lemma is_pressed_clickButtons_self:
  assumes "i < length bs" "language (bs ! i) \<noteq> []"
  shows "is_pressed (clickButtons i bs ! i) = (\<not> is_pressed (bs ! i))"
proof (cases "allButton bs")
  case None
  with assms show ?thesis by (simp add: clickButtons_no_all flipped_def)
next
  case (Some a)
  from allButton_bound[OF Some] assms(2) have "i \<noteq> a" by auto
  with assms show ?thesis
    by (simp add: clickButtons_with_all[OF assms(1,2) Some] flipped_def)
qed

lemma settled_clickButtons:
  assumes s: "settled p bs" and i: "i < length bs" and shown: "\<not> button_hidden (bs ! i)"
  shows "settled p (clickButtons i bs)"
proof -
  have len: "length bs = length (languageFilters p)"
    using s by (metis settled_def length_map)
  have lang: "language (bs ! j) = language (languageFilters p ! j)" if "j < length bs" for j
    using s that len unfolding settled_def by (metis nth_map)
  have hid: "button_hidden (bs ! j) = button_hidden (availabilityResult p ! j)" if "j < length bs" for j
    using s that len unfolding settled_def by (metis length_availabilityResult nth_map)
  have avail_i: "\<not> unavailable p (bs ! i)"
    using shown hid[OF i] nth_availabilityResult(1)[of i p] i len
      unavailable_language[OF lang[OF i], of p] by simp
  have "\<not> is_pressed (clickButtons i bs ! j)"
    if j: "j < length bs" and u: "unavailable p (clickButtons i bs ! j)" for j
  proof -
    have "language (clickButtons i bs ! j) = language (bs ! j)"
      using language_clickButtons[OF i] j by (metis length_clickButtons nth_map)
    with u have uj: "unavailable p (bs ! j)" using unavailable_language by metis
    with avail_i have ji: "j \<noteq> i" by auto
    from s j uj have "\<not> is_pressed (bs ! j)" by (simp add: settled_def)
    then show ?thesis
      using is_pressed_clickButtons_other[OF i j ji unavailable_specific[OF uj]] by simp
  qed
  then show ?thesis
    using s language_clickButtons[OF i] button_hidden_clickButtons[OF i]
    by (simp add: settled_def)
qed

lemma languageFilters_main:
  "searchInput p = Some v \<Longrightarrow> languageFilters (main p) = availabilityResult p"
  by (simp add: main_def applyLanguageAvailability_eq)

lemma searchInput_run:
  assumes "searchInput p = Some v"
  shows "searchInput (run p es) \<noteq> None"
  using run_is_recomputation[OF assms, of es] by (auto simp: same_layout_def)

lemma settled_run:
  assumes "searchInput p = Some v" and "clicks_on_shown p es"
  shows "settled p (languageFilters (run p es))"
  using assms(2)
proof (induction es rule: rev_induct)
  case Nil
  show ?case
    by (simp add: run_Nil languageFilters_main[OF assms(1)] settled_availabilityResult)
next
  case (snoc e es)
  then have IH: "settled p (languageFilters (run p es))"
    by (simp add: clicks_on_shown_def)
  let ?r = "run p es"
  from searchInput_run[OF assms(1), of es] obtain w where w: "searchInput ?r = Some w" by auto
  have len: "length (languageFilters ?r) = length (languageFilters p)"
    using IH by (metis settled_def length_map)
  show ?case
  proof (cases e)
    case (Input v')
    then show ?thesis using IH w by (simp add: run_snoc dispatch_def)
  next
    case (Click i)
    with snoc.prems have i: "i < length (languageFilters p)"
      and sh: "\<not> button_hidden (languageFilters (main p) ! i)"
      by (simp_all add: clicks_on_shown_def)
    have "button_hidden (languageFilters ?r ! i) = button_hidden (availabilityResult p ! i)"
      using IH i len unfolding settled_def by (metis length_availabilityResult nth_map)
    with sh have "\<not> button_hidden (languageFilters ?r ! i)"
      by (simp add: languageFilters_main[OF assms(1)])
    from settled_clickButtons[OF IH _ this] i len
    show ?thesis using w Click by (simp add: run_snoc dispatch_def)
  qed
qed

subsection \<open>Pages without an optional element\<close>

lemma availabilityResult_cong:
  "repo_cards q = repo_cards p \<Longrightarrow> languageFilters q = languageFilters p \<Longrightarrow>
   availabilityResult q = availabilityResult p"
  by (simp add: availabilityResult_def availableLanguages_def cards_def)

lemma run_commute:
  assumes af: "\<And>tc v q. applyFilter tc v (m q) = m (applyFilter tc v q)"
    and si: "\<And>q. searchInput (m q) = searchInput q"
    and lf: "\<And>q. languageFilters (m q) = languageFilters q"
    and rc: "\<And>q. repo_cards (m q) = repo_cards q"
    and ub: "\<And>q bs. m (q\<lparr>languageFilters := bs\<rparr>) = (m q)\<lparr>languageFilters := bs\<rparr>"
    and ui: "\<And>q v. m (q\<lparr>searchInput := v\<rparr>) = (m q)\<lparr>searchInput := v\<rparr>"
  shows "run (m p) es = m (run p es)"
proof -
  have c: "cards (m q) = cards q" for q by (simp add: cards_def rc)
  have a: "applyLanguageAvailability (m q) = m (applyLanguageAvailability q)" for q
    by (simp add: applyLanguageAvailability_eq ub lf availabilityResult_cong[OF rc lf])
  have mn: "main (m p) = m (main p)"
    by (cases "searchInput p") (simp_all add: main_def si c a af)
  have d: "dispatch tc e (m q) = m (dispatch tc e q)" for tc e q
    by (cases "searchInput q"; cases e) (simp_all add: dispatch_def si lf ub[symmetric] ui[symmetric] af)
  show ?thesis
    by (induction es rule: rev_induct) (simp_all add: run_Nil run_snoc mn c d)
qed

lemma run_without_emptyState: "run (p\<lparr>emptyState := None\<rparr>) es = (run p es)\<lparr>emptyState := None\<rparr>"
  by (rule run_commute[where m = "\<lambda>q. q\<lparr>emptyState := None\<rparr>"])
     (simp_all add: applyFilter_def Let_def case_prod_beta)

lemma run_without_totalCountLabel:
  "run (p\<lparr>totalCountLabel := None\<rparr>) es = (run p es)\<lparr>totalCountLabel := None\<rparr>"
  by (rule run_commute[where m = "\<lambda>q. q\<lparr>totalCountLabel := None\<rparr>"])
     (simp_all add: applyFilter_def Let_def case_prod_beta)

lemma length_without_summaries [simp]: "length (without_summaries K secs) = length secs"
  by (simp add: without_summaries_def)

lemma nth_without_summaries:
  "i < length secs \<Longrightarrow>
   without_summaries K secs ! i = (if i \<in> K then (secs ! i)\<lparr>sectionCount := None\<rparr> else secs ! i)"
  by (simp add: without_summaries_def)

lemma loops_without_summaries:
  "countLoop cs (sectionLoop F cs (without_summaries K secs)) =
   without_summaries K (countLoop cs (sectionLoop F cs secs))"
proof (rule nth_equalityI)
  show "length (countLoop cs (sectionLoop F cs (without_summaries K secs))) =
        length (without_summaries K (countLoop cs (sectionLoop F cs secs)))" by simp
next
  fix i assume "i < length (countLoop cs (sectionLoop F cs (without_summaries K secs)))"
  then have i: "i < length secs" by simp
  then show "countLoop cs (sectionLoop F cs (without_summaries K secs)) ! i =
        without_summaries K (countLoop cs (sectionLoop F cs secs)) ! i"
    by (simp add: nth_countLoop nth_sectionLoop nth_without_summaries split: option.splits)
qed

lemma applyFilter_without_summaries:
  "applyFilter tc v (q\<lparr>sections := without_summaries K (sections q)\<rparr>) =
   (applyFilter tc v q)\<lparr>sections := without_summaries K (sections (applyFilter tc v q))\<rparr>"
  by (simp add: applyFilter_def Let_def case_prod_beta loops_without_summaries)

lemma run_without_summaries:
  "run (p\<lparr>sections := without_summaries K (sections p)\<rparr>) es =
   (run p es)\<lparr>sections := without_summaries K (sections (run p es))\<rparr>"
  by (rule run_commute[where m = "\<lambda>q. q\<lparr>sections := without_summaries K (sections q)\<rparr>"])
     (simp_all add: applyFilter_without_summaries)

lemma dispatch_no_input: "searchInput p = None \<Longrightarrow> dispatch tc e p = p"
  by (simp add: dispatch_def)

lemma run_no_input: "searchInput p = None \<Longrightarrow> run p es = p"
proof (induction es rule: rev_induct)
  case Nil
  then show ?case by (simp add: run_Nil main_def)
next
  case (snoc e es)
  then show ?case by (simp add: run_snoc dispatch_no_input)
qed

lemma availability_no_buttons: "languageFilters p = [] \<Longrightarrow> applyLanguageAvailability p = p"
  by (simp add: applyLanguageAvailability_def allButton_def)

subsection \<open>The null checks never fail\<close>

lemma and_then_Inr [simp]: "and_then (Inr x) f = f x"
  by (simp add: and_then_def)

lemma and_then_Inl [simp]: "and_then (Inl e) f = Inl e"
  by (simp add: and_then_def)

lemma applyLanguageAvailability_js_ok:
  "applyLanguageAvailability_js p = Inr (applyLanguageAvailability p)"
  by (cases "allButton (languageFilters p)")
     (simp_all add: applyLanguageAvailability_js_def applyLanguageAvailability_def Let_def press_def)

lemma countLoop_js_ok:
  "countLoop_js cs i secs = Inr (map2 (countStep cs) [i..<i + length secs] secs)"
proof (induction secs arbitrary: i)
  case Nil
  then show ?case by simp
next
  case (Cons s secs)
  have step: "(if sectionCount s = None then Inr s
        else and_then (dataset_total (sectionCount s)) (\<lambda>t.
             let sectionTotal = parseInt10 (or_else t ''0'');
                 sectionVisible = length (visibleCardsIn cs i)
             in and_then
                  (set_count_text (sectionCount s)
                     (''Repositories: '' @ show_nat sectionVisible @ ''/'' @ show_number sectionTotal))
                  (\<lambda>sc. Inr (s\<lparr>sectionCount := sc\<rparr>)))) =
      Inr (countStep cs i s)"
    by (cases "sectionCount s")
       (simp_all add: dataset_total_def set_count_text_def summaryText_def countStep_def Let_def)
  have "i < i + length (s # secs)" by simp
  from upt_conv_Cons[OF this]
  have "[i..<i + length (s # secs)] = i # [Suc i..<Suc i + length secs]"
    by simp
  then show ?case
    unfolding countLoop_js.simps step by (simp add: Cons.IH del: upt_Suc)
qed

lemma countLoop_js_countLoop: "countLoop_js cs 0 secs = Inr (countLoop cs secs)"
proof -
  have "map2 (countStep cs) [0..<length secs] secs = countLoop cs secs"
    by (rule nth_equalityI) (simp_all add: nth_countLoop countStep_def)
  then show ?thesis by (simp add: countLoop_js_ok)
qed

lemma applyFilter_js_ok:
  "applyFilter_js tc p =
     (case searchInput p of None \<Rightarrow> Inl TypeError | Some v \<Rightarrow> Inr (applyFilter tc v p))"
proof (cases "searchInput p")
  case None
  then show ?thesis by (simp add: applyFilter_js_def value_of_def)
next
  case (Some v)
  have e: "(if emptyState p \<noteq> None then set_hidden (emptyState p) h else Inr (emptyState p)) =
      Inr (case emptyState p of None \<Rightarrow> None | Some _ \<Rightarrow> Some h)" for h
    by (cases "emptyState p") (simp_all add: set_hidden_def)
  have l: "(if totalCountLabel p \<noteq> None then set_textContent (totalCountLabel p) t
            else Inr (totalCountLabel p)) =
      Inr (case totalCountLabel p of None \<Rightarrow> None | Some _ \<Rightarrow> Some t)" for t
    by (cases "totalCountLabel p") (simp_all add: set_textContent_def)
  show ?thesis
    unfolding applyFilter_js_def applyFilter_def Let_def e l
    by (simp add: Some value_of_def case_prod_beta countLoop_js_countLoop)
qed

lemma clickButtons_js_ok: "clickButtons_js i bs = Inr (clickButtons i bs)"
  by (cases "allButton bs")
     (simp_all add: clickButtons_js_def clickButtons_def Let_def press_def)

lemma main_js_ok: "\<exists>qs ls. main_js p = Inr (main p, qs, ls)"
  by (cases "searchInput p")
     (simp_all add: main_js_def main_def Let_def applyLanguageAvailability_js_ok applyFilter_js_ok
        applyLanguageAvailability_eq)

lemma dispatch_js_ok: "dispatch_js tc e p = Inr (dispatch tc e p)"
  by (cases "searchInput p"; cases e)
     (simp_all add: dispatch_js_def dispatch_def clickButtons_js_ok applyFilter_js_ok)

lemma events_js_ok: "events_js tc es p = Inr (foldl (\<lambda>q e. dispatch tc e q) p es)"
  by (induction es arbitrary: p) (simp_all add: dispatch_js_ok)

lemma run_js_ok: "run_js p es = Inr (run p es)"
proof -
  from main_js_ok[of p] obtain qs ls where "main_js p = Inr (main p, qs, ls)" by blast
  then show ?thesis by (simp add: run_js_def run_def events_js_ok)
qed

lemma main_js_no_input:
  "searchInput p = None \<Longrightarrow> main_js p = Inr (p, [GetById ''repo-search''], [])"
  by (simp add: main_js_def)

subsection \<open>What one recomputation writes\<close>

lemma length_repo_cards_applyFilter [simp]:
  "length (repo_cards (applyFilter tc v p)) = length (repo_cards p)"
  by (simp add: repo_cards_applyFilter')

lemma applyFilter_updates:
  "let q = toLowerCase (trim v);
       S = selectedLanguages (languageFilters p);
       p' = applyFilter totalCount v p;
       visible = length (filter (\<lambda>c. \<not> card_hidden c) (cards p'))
   in length (repo_cards p') = length (repo_cards p) \<and>
      length (sections p') = length (sections p) \<and>
      (\<forall>i<length (repo_cards p). has_repo_name (repo_cards p ! i) \<longrightarrow>
         card_hidden (repo_cards p' ! i) = (\<not> isVisible q S (repo_cards p ! i))) \<and>
      (\<forall>j<length (sections p).
         section_hidden (sections p' ! j) =
           ((q \<noteq> [] \<or> S \<noteq> {}) \<and> visibleCardsIn (repo_cards p') j = [])) \<and>
      emptyState p' =
        (case emptyState p of
           None \<Rightarrow> None
         | Some _ \<Rightarrow> Some (\<not> (q \<noteq> [] \<or> S \<noteq> {}) \<or> 0 < visible)) \<and>
      totalCountLabel p' =
        (case totalCountLabel p of
           None \<Rightarrow> None
         | Some _ \<Rightarrow>
             Some (''Public repositories: '' @ show_nat visible @ ''/'' @ show_nat totalCount)) \<and>
      (\<forall>j<length (sections p).
         sectionCount (sections p' ! j) =
           (case sectionCount (sections p ! j) of
              None \<Rightarrow> None
            | Some sc \<Rightarrow>
                Some (sc\<lparr>count_text :=
                  ''Repositories: '' @ show_nat (length (visibleCardsIn (repo_cards p') j)) @ ''/'' @
                  show_number (parseInt10 (or_else (section_count.total sc) ''0''))\<rparr>)))"
proof -
  let ?p = "applyFilter totalCount v p"
  have c: "card_hidden (repo_cards ?p ! i) =
      (\<not> isVisible (toLowerCase (trim v)) (selectedLanguages (languageFilters p)) (repo_cards p ! i))"
    if "i < length (repo_cards p)" "has_repo_name (repo_cards p ! i)" for i
    using that by (simp add: repo_cards_applyFilter' card_hidden_showCard)
  have s: "section_hidden (sections ?p ! j) =
      ((toLowerCase (trim v) \<noteq> [] \<or> selectedLanguages (languageFilters p) \<noteq> {}) \<and>
       visibleCardsIn (repo_cards ?p) j = [])" if "j < length (sections p)" for j
    using that by (simp add: nth_sections_applyFilter filtering_def split: option.splits)
  have t: "sectionCount (sections ?p ! j) =
           (case sectionCount (sections p ! j) of
              None \<Rightarrow> None
            | Some sc \<Rightarrow>
                Some (sc\<lparr>count_text :=
                  ''Repositories: '' @ show_nat (length (visibleCardsIn (repo_cards ?p) j)) @ ''/'' @
                  show_number (parseInt10 (or_else (section_count.total sc) ''0''))\<rparr>))"
    if "j < length (sections p)" for j
    using that by (simp add: nth_sections_applyFilter summaryText_def split: option.splits)
  have es: "emptyState ?p =
        (case emptyState p of
           None \<Rightarrow> None
         | Some _ \<Rightarrow>
             Some (\<not> (toLowerCase (trim v) \<noteq> [] \<or> selectedLanguages (languageFilters p) \<noteq> {}) \<or>
                   0 < length (filter (\<lambda>c. \<not> card_hidden c) (cards ?p))))"
    by (simp add: emptyState_applyFilter filtering_def split: option.splits)
  show ?thesis
    unfolding Let_def
    by (intro conjI allI impI)
       (simp_all add: c s t es totalCountLabel_applyFilter)
qed

section \<open>The claims\<close>

text \<open>
  C1. After a recomputation with the text-input value \<open>v\<close>, a card of \<open>cards\<close> is
  visible exactly when the query \<open>q\<close> (the trimmed, lower-cased \<open>v\<close>) is empty or
  occurs in the lower-cased text "name category description", and the selected set
  \<open>S\<close> is empty or holds the card's lower-cased category, \<open>unknown\<close> standing in for
  a missing or empty category.
\<close>

theorem card_visible_iff:
  assumes "i < length (repo_cards p)" and "has_repo_name (repo_cards p ! i)"
  shows "let c = repo_cards p ! i;
             q = toLowerCase (trim v);
             S = selectedLanguages (languageFilters p);
             name = or_else (repoName c) [];
             category = or_else (repoLanguage c) [];
             description = or_else (repoDescription c) []
         in (\<not> card_hidden (repo_cards (applyFilter totalCount v p) ! i)) =
            ((q = [] \<or> sublist q (toLowerCase (name @ '' '' @ category @ '' '' @ description))) \<and>
             (S = {} \<or> toLowerCase (if category = [] then ''unknown'' else category) \<in> S))"
proof -
  have lang: "cardLanguage c =
      toLowerCase (if or_else (repoLanguage c) [] = [] then ''unknown'' else or_else (repoLanguage c) [])" for c
    by (simp add: cardLanguage_def or_else_def split: option.splits)
  show ?thesis
    using assms
    by (simp add: repo_cards_applyFilter isVisible_def searchableText_def Let_def
        includes_sublist card_selected_pos lang)
qed

theorem card_visible_iff_witness:
  "0 < length (repo_cards demo) \<and> has_repo_name (repo_cards demo ! 0) \<and>
   \<not> card_hidden (repo_cards (applyFilter 2 '' CLI '' demo) ! 0) \<and>
   1 < length (repo_cards demo) \<and> has_repo_name (repo_cards demo ! 1) \<and>
   card_hidden (repo_cards (applyFilter 2 '' CLI '' demo) ! 1)"
proof -
  have h0: "0 < length (repo_cards demo)" and n0: "has_repo_name (repo_cards demo ! 0)"
    and h1: "1 < length (repo_cards demo)" and n1: "has_repo_name (repo_cards demo ! 1)"
    by (simp_all add: demo_def alpha_def beta_def has_repo_name_def)
  have q: "toLowerCase (trim '' CLI '') = ''cli''"
    by (simp add: toLowerCase_def lower_char_def trim_def is_ws_def)
  have S: "selectedLanguages (languageFilters demo) = {}"
    by (simp add: selectedLanguages_def demo_def filter_button_def is_pressed_def)
  have t0: "toLowerCase ''alpha Rust CLI tool'' = ''alpha rust cli tool''"
    and t1: "toLowerCase ''beta Go server'' = ''beta go server''"
    by (simp_all add: toLowerCase_def lower_char_def)
  have s0: "sublist ''cli'' ''alpha rust cli tool''" and s1: "\<not> sublist ''cli'' ''beta go server''"
    unfolding includes_sublist[symmetric] by simp_all
  have "\<not> card_hidden (repo_cards (applyFilter 2 '' CLI '' demo) ! 0)"
    using card_visible_iff[OF h0 n0, of "'' CLI ''" 2]
    unfolding Let_def q S by (simp add: demo_def alpha_def or_else_def t0 s0)
  moreover have "card_hidden (repo_cards (applyFilter 2 '' CLI '' demo) ! 1)"
    using card_visible_iff[OF h1 n1, of "'' CLI ''" 2]
    unfolding Let_def q S by (simp add: demo_def beta_def or_else_def t1 s1)
  ultimately show ?thesis using h0 n0 h1 n1 by simp
qed

text \<open>
  C2. After the click handler of any filter button has run, from any prior state of a
  button group that has an all button: either the all button is pressed and no
  specific button is, or some specific button is pressed and the all button is not;
  never both.
\<close>

theorem click_exclusive:
  assumes "searchInput p = Some v" and "i < length (languageFilters p)"
    and "allButton (languageFilters p) \<noteq> None"
  shows "let bs = languageFilters (dispatch totalCount (Click i) p)
         in (all_pressed bs \<and> \<not> specific_pressed bs \<or> specific_pressed bs \<and> \<not> all_pressed bs) \<and>
            \<not> ((all_pressed bs \<and> \<not> specific_pressed bs) \<and> (specific_pressed bs \<and> \<not> all_pressed bs))"
proof -
  from assms(3) obtain a where a: "allButton (languageFilters p) = Some a" by auto
  show ?thesis
    using clickButtons_exclusive[OF assms(2) a]
    by (simp add: languageFilters_click[OF assms(1,2)] Let_def)
qed

theorem click_exclusive_witness:
  "searchInput demo = Some [] \<and> 2 < length (languageFilters demo) \<and>
   allButton (languageFilters demo) \<noteq> None \<and>
   specific_pressed (languageFilters (dispatch 2 (Click 2) demo)) \<and>
   \<not> all_pressed (languageFilters (dispatch 2 (Click 2) demo))"
proof -
  have h1: "searchInput demo = Some []" and h2: "2 < length (languageFilters demo)"
    and h3: "allButton (languageFilters demo) \<noteq> None"
    by (simp_all add: demo_def allButton_def filter_button_def)
  have "specific_pressed (languageFilters (dispatch 2 (Click 2) demo))"
    by (simp add: languageFilters_click[OF h1 h2] specific_pressed_def)
       (simp add: demo_def filter_button_def clickButtons_def allButton_def
          selectedLanguages_def is_pressed_def setButtonPressed_def)
  then show ?thesis
    using click_exclusive[OF h1 h2 h3, of 2] h1 h2 h3 by (simp add: Let_def)
qed

text \<open>
  C3. On a button group with at most one all button, the click handler and the
  specification's reference transition agree: seen as (value, pressed) pairs, the
  buttons after a click on position \<open>i\<close> are what \<open>spec_click\<close> computes.
\<close>

theorem clickButtons_refines_spec:
  assumes "i < length bs" and "single_all bs"
  shows "toggles (clickButtons i bs) = spec_click i (toggles bs)"
proof (cases "language (bs ! i) = []")
  case True
  have "toggles (clickButtons i bs) = map (\<lambda>b. (language b, language b = [])) bs"
    by (simp add: clickButtons_on_all[OF True] toggles_def)
  moreover have "spec_click i (toggles bs) = map (\<lambda>b. (language b, language b = [])) bs"
    using True assms(1) by (simp add: spec_click_def spec_set_all_def toggles_def)
  ultimately show ?thesis by simp
next
  case False
  let ?ts = "toggles bs"
  let ?F = "?ts[i := (fst (?ts ! i), \<not> snd (?ts ! i))]"
  have tf: "toggles (flipped i bs) = ?F" by (rule toggles_flipped[OF assms(1)])
  have fsti: "fst (?ts ! i) \<noteq> []" using False assms(1) by (simp add: toggles_def)
  have spec: "spec_click i ?ts =
      (if spec_selected (spec_set_all False ?F) = {} then spec_set_all True (spec_set_all False ?F)
       else spec_set_all False ?F)"
    using fsti by (simp add: spec_click_def Let_def)
  have fstF: "fst (?F ! j) = language (bs ! j)" if "j < length bs" for j
    using that by (cases "j = i") (simp_all add: toggles_def)
  show ?thesis
  proof (cases "allButton bs")
    case None
    then have "\<forall>b\<in>set bs. language b \<noteq> []"
      unfolding allButton_def by (rule findIndex_None)
    then have "fst (?F ! j) \<noteq> []" if "j < length bs" for j
      using fstF[OF that] nth_mem[OF that] by simp
    then have "\<forall>t\<in>set ?F. fst t \<noteq> []"
      unfolding all_set_conv_all_nth by (simp add: toggles_def)
    then have "spec_set_all x ?F = ?F" for x by (rule spec_set_all_none)
    then have "spec_click i ?ts = ?F" unfolding spec by simp
    with tf show ?thesis by (simp add: clickButtons_no_all[OF False None])
  next
    case (Some a)
    from allButton_bound[OF Some] have a: "a < length bs" "language (bs ! a) = []" by auto
    with False have ia: "i \<noteq> a" by auto
    have uniq: "j = a" if "j < length bs" "language (bs ! j) = []" for j
      using filter_le_one_unique[of "\<lambda>b. language b = []" bs j a] that a assms(2)
      by (simp add: single_all_def)
    have Fa: "a < length ?F" "fst (?F ! a) = []" using a fstF by simp_all
    have Fothers: "\<forall>j<length ?F. j \<noteq> a \<longrightarrow> fst (?F ! j) \<noteq> []"
      using uniq fstF by auto
    have rel: "spec_set_all False ?F = ?F[a := ([], False)]"
      by (rule spec_set_all_single[OF Fa Fothers])
    have again: "spec_set_all True (?F[a := ([], False)]) = ?F[a := ([], True)]"
      using spec_set_all_single[of a "?F[a := ([], False)]" True] Fa Fothers by simp
    have sel: "spec_selected (?F[a := ([], False)]) = selectedLanguages (flipped i bs)"
      using spec_selected_update_all[OF Fa] tf spec_selected_toggles[of "flipped i bs"] by simp
    have "spec_click i ?ts = ?F[a := ([], \<not> specific_pressed (flipped i bs))]"
      unfolding spec rel again sel by (simp add: selected_empty_iff)
    moreover have "toggles (clickButtons i bs) = ?F[a := ([], \<not> specific_pressed (flipped i bs))]"
      using a by (simp add: clickButtons_with_all[OF assms(1) False Some] toggles_update tf)
    ultimately show ?thesis by simp
  qed
qed

theorem clickButtons_refines_spec_witness:
  "2 < length (languageFilters demo) \<and> single_all (languageFilters demo) \<and>
   spec_click 2 (toggles (languageFilters demo)) =
     [([], False), (''rust'', False), (''go'', True), (''kotlin'', False)] \<and>
   toggles (clickButtons 2 (languageFilters demo)) =
     [([], False), (''rust'', False), (''go'', True), (''kotlin'', False)]"
proof -
  have h1: "2 < length (languageFilters demo)" and h2: "single_all (languageFilters demo)"
    by (simp_all add: demo_def single_all_def filter_button_def)
  have "spec_click 2 (toggles (languageFilters demo)) =
     [([], False), (''rust'', False), (''go'', True), (''kotlin'', False)]"
    by (simp add: demo_def filter_button_def toggles_def is_pressed_def spec_click_def
        spec_selected_empty spec_set_all_def)
  then show ?thesis
    using clickButtons_refines_spec[OF h1 h2] h1 h2 by simp
qed

text \<open>
  C4, in the form the script satisfies. A filter button whose lower-cased value is not empty (it is not the
  all button) and is the lower-cased category of no card is hidden and unpressed once
  the script has run, and it stays hidden, unpressed and out of the selected language
  set through every sequence of text-input events and of clicks on buttons that are
  not hidden. The click handler has no guard of its own: a click event that does reach
  the hidden button presses it.
\<close>

theorem unavailable_button_stays_out:
  assumes "searchInput p = Some v" and "j < length (languageFilters p)"
    and "unavailable p (languageFilters p ! j)" and "clicks_on_shown p es"
  shows "let bs = languageFilters (run p es)
         in button_hidden (bs ! j) \<and> \<not> is_pressed (bs ! j) \<and>
            language (languageFilters p ! j) \<notin> selectedLanguages bs \<and>
            is_pressed (languageFilters (dispatch totalCount (Click j) (run p es)) ! j)"
proof -
  let ?bs = "languageFilters (run p es)"
  have s: "settled p ?bs" by (rule settled_run[OF assms(1,4)])
  have len: "length ?bs = length (languageFilters p)"
    using s by (metis settled_def length_map)
  have lang: "language (?bs ! k) = language (languageFilters p ! k)" if "k < length ?bs" for k
    using s that len unfolding settled_def by (metis nth_map)
  have j: "j < length ?bs" using assms(2) len by simp
  have uj: "unavailable p (?bs ! j)"
    using assms(3) unavailable_language[OF lang[OF j], of p] by simp
  have "button_hidden (?bs ! j) = button_hidden (availabilityResult p ! j)"
    using s j len unfolding settled_def by (metis length_availabilityResult nth_map)
  then have h: "button_hidden (?bs ! j)"
    using nth_availabilityResult(1)[OF assms(2)] assms(3) by simp
  have np: "\<not> is_pressed (?bs ! j)" using s j uj by (simp add: settled_def)
  have out: "language (languageFilters p ! j) \<notin> selectedLanguages ?bs"
  proof
    assume "language (languageFilters p ! j) \<in> selectedLanguages ?bs"
    then obtain b where b: "b \<in> set ?bs" "language b = language (languageFilters p ! j)" "is_pressed b"
      by (auto simp: selectedLanguages_def)
    then obtain k where k: "k < length ?bs" "?bs ! k = b" by (auto simp: in_set_conv_nth)
    with b(2) assms(3) have "unavailable p (?bs ! k)"
      using unavailable_language[of "?bs ! k" "languageFilters p ! j" p] by simp
    with s k(1) have "\<not> is_pressed (?bs ! k)" by (simp add: settled_def)
    with k(2) b(3) show False by simp
  qed
  from searchInput_run[OF assms(1), of es] obtain w where w: "searchInput (run p es) = Some w" by auto
  have "is_pressed (languageFilters (dispatch totalCount (Click j) (run p es)) ! j)"
    using is_pressed_clickButtons_self[OF j unavailable_specific[OF uj]] np
    by (simp add: languageFilters_click[OF w j])
  with h np out show ?thesis by (simp add: Let_def)
qed

text \<open>
  On the example page the button \<open>kotlin\<close> is hidden and unpressed after start-up;
  a click event on it presses it, puts \<open>kotlin\<close> into the selected set and hides
  the card that was visible.
\<close>

theorem hidden_button_click_counterexample:
  "unavailable demo (languageFilters demo ! 3) \<and>
   button_hidden (languageFilters (run demo []) ! 3) \<and>
   \<not> is_pressed (languageFilters (run demo []) ! 3) \<and>
   \<not> card_hidden (repo_cards (run demo []) ! 0) \<and>
   is_pressed (languageFilters (run demo [Click 3]) ! 3) \<and>
   ''kotlin'' \<in> selectedLanguages (languageFilters (run demo [Click 3])) \<and>
   card_hidden (repo_cards (run demo [Click 3]) ! 0)"
proof -
  have "unavailable demo (languageFilters demo ! 3)"
    by (simp add: unavailable_def page_eval)
  then show ?thesis
    unfolding demo_kotlin run_Nil demo_main
    by (simp add: selectedLanguages_def is_pressed_def setButtonPressed_def filter_button_def alpha_def)
qed

theorem unavailable_button_stays_out_witness:
  "searchInput demo = Some [] \<and> 3 < length (languageFilters demo) \<and>
   unavailable demo (languageFilters demo ! 3) \<and> clicks_on_shown demo [Click 2, Input ''go'', Click 0] \<and>
   button_hidden (languageFilters (run demo [Click 2, Input ''go'', Click 0]) ! 3) \<and>
   \<not> is_pressed (languageFilters (run demo [Click 2, Input ''go'', Click 0]) ! 3) \<and>
   ''kotlin'' \<notin> selectedLanguages (languageFilters (run demo [Click 2, Input ''go'', Click 0])) \<and>
   is_pressed (languageFilters (dispatch 2 (Click 3) (run demo [Click 2, Input ''go'', Click 0])) ! 3)"
proof -
  have h1: "searchInput demo = Some []" and h2: "3 < length (languageFilters demo)"
    by (simp_all add: demo_def)
  have h3: "unavailable demo (languageFilters demo ! 3)"
    by (simp add: unavailable_def page_eval)
  have h4: "clicks_on_shown demo [Click 2, Input ''go'', Click 0]"
    unfolding clicks_on_shown_def demo_main by (simp add: demo_def filter_button_def setButtonPressed_def)
  have l: "language (languageFilters demo ! 3) = ''kotlin''"
    by (simp add: demo_def filter_button_def)
  show ?thesis
    using unavailable_button_stays_out[OF h1 h2 h3 h4, of 2] h1 h2 h3 h4
    unfolding Let_def l by simp
qed

text \<open>
  C5. After a recomputation, a section is visible when nothing is filtered (empty
  query, empty selected set); otherwise it is visible exactly when one of the
  \<open>.repo-card\<close> elements inside it is not hidden after the pass over the cards.
\<close>

theorem section_visible_iff:
  assumes "i < length (sections p)"
  shows "let q = toLowerCase (trim v);
             S = selectedLanguages (languageFilters p);
             p' = applyFilter totalCount v p
         in (\<not> section_hidden (sections p' ! i)) =
            (if q = [] \<and> S = {} then True
             else \<exists>c\<in>set (repo_cards p'). i \<in> set (card_sections c) \<and> \<not> card_hidden c)"
  using assms
  by (auto simp: Let_def nth_sections_applyFilter filtering_def visibleCardsIn_def
      filter_empty_conv split: option.splits)

theorem section_visible_iff_witness:
  "1 < length (sections demo) \<and> \<not> section_hidden (sections (applyFilter 2 [] demo) ! 1) \<and>
   0 < length (sections demo) \<and> section_hidden (sections (applyFilter 2 ''zzz'' demo) ! 0)"
proof -
  have h1: "1 < length (sections demo)" and h0: "0 < length (sections demo)"
    by (simp_all add: demo_def)
  have q: "toLowerCase (trim []) = []" "toLowerCase (trim ''zzz'') = ''zzz''"
    by (simp_all add: toLowerCase_def lower_char_def trim_def is_ws_def)
  have S: "selectedLanguages (languageFilters demo) = {}"
    by (simp add: selectedLanguages_def demo_def filter_button_def is_pressed_def)
  have "\<not> section_hidden (sections (applyFilter 2 [] demo) ! 1)"
    using section_visible_iff[OF h1, of "[]" 2] unfolding Let_def q S by simp
  moreover have "repo_cards (applyFilter 2 ''zzz'' demo) = [alpha\<lparr>card_hidden := True\<rparr>, beta]"
    by (simp add: page_eval)
  then have "section_hidden (sections (applyFilter 2 ''zzz'' demo) ! 0)"
    using section_visible_iff[OF h0, of "''zzz''" 2] unfolding Let_def q S
    by (simp add: alpha_def beta_def)
  ultimately show ?thesis using h0 h1 by simp
qed

text \<open>
  C6. After a recomputation, the empty-state indicator, when the page has one, is
  visible exactly when something is filtered (the query or the selected set is not
  empty) and no card of \<open>cards\<close> is visible; a page without the indicator stays
  without it.
\<close>

theorem empty_state_visible_iff:
  "let q = toLowerCase (trim v);
       S = selectedLanguages (languageFilters p);
       p' = applyFilter totalCount v p
   in case emptyState p of
        None \<Rightarrow> emptyState p' = None
      | Some _ \<Rightarrow> (\<exists>h. emptyState p' = Some h \<and>
          (\<not> h) = ((q \<noteq> [] \<or> S \<noteq> {}) \<and> length (filter (\<lambda>c. \<not> card_hidden c) (cards p')) = 0))"
  by (auto simp: Let_def emptyState_applyFilter filtering_def split: option.splits)

theorem empty_state_visible_iff_witness:
  "emptyState demo = Some False \<and> emptyState (applyFilter 2 ''zzz'' demo) = Some False \<and>
   emptyState (applyFilter 2 [] demo) = Some True"
proof -
  have e: "emptyState demo = Some False" by (simp add: demo_def)
  have q: "toLowerCase (trim []) = []" "toLowerCase (trim ''zzz'') = ''zzz''"
    by (simp_all add: toLowerCase_def lower_char_def trim_def is_ws_def)
  have S: "selectedLanguages (languageFilters demo) = {}"
    by (simp add: selectedLanguages_def demo_def filter_button_def is_pressed_def)
  have c: "cards (applyFilter 2 ''zzz'' demo) = [alpha\<lparr>card_hidden := True\<rparr>, beta]"
    by (simp add: page_eval)
  have "emptyState (applyFilter 2 ''zzz'' demo) = Some False"
    using empty_state_visible_iff[of "''zzz''" demo 2] unfolding Let_def q S e c
    by (auto simp: beta_def)
  moreover have "emptyState (applyFilter 2 [] demo) = Some True"
    using empty_state_visible_iff[of "[]" demo 2] unfolding Let_def q S e
    by auto
  ultimately show ?thesis using e by simp
qed

text \<open>
  C7. After start-up and any sequence of events, the global summary, when present,
  reads "Public repositories: visible/total", where total is the number of cards at
  start-up and visible the number of cards that are not hidden now; the summary of a
  section, when present, keeps its \<open>data-total\<close> attribute and reads
  "Repositories: visible/total", where total is parsed from that attribute and visible
  counts the cards of the section that are not hidden now.
\<close>

theorem summaries_after_events:
  assumes "searchInput p = Some v"
  shows "let p' = run p es
         in length (cards p') = length (cards p) \<and>
            (case totalCountLabel p of
               None \<Rightarrow> totalCountLabel p' = None
             | Some _ \<Rightarrow> totalCountLabel p' =
                 Some (''Public repositories: '' @
                       show_nat (length (filter (\<lambda>c. \<not> card_hidden c) (cards p'))) @ ''/'' @
                       show_nat (length (cards p)))) \<and>
            (\<forall>i<length (sections p).
               case sectionCount (sections p ! i) of
                 None \<Rightarrow> sectionCount (sections p' ! i) = None
               | Some sc \<Rightarrow> sectionCount (sections p' ! i) =
                   Some (sc\<lparr>count_text :=
                     ''Repositories: '' @
                     show_nat (length (filter (\<lambda>c. i \<in> set (card_sections c) \<and> \<not> card_hidden c)
                                         (repo_cards p'))) @ ''/'' @
                     show_number (parseInt10 (or_else (section_count.total sc) ''0''))\<rparr>))"
proof -
  from run_is_recomputation[OF assms, of es]
  obtain q v' where q: "same_layout p q" and r: "run p es = applyFilter (length (cards p)) v' q"
    by blast
  have c: "length (cards (run p es)) = length (cards p)"
    using q by (simp add: r same_layout_def)
  have l: "case totalCountLabel p of
               None \<Rightarrow> totalCountLabel (run p es) = None
             | Some _ \<Rightarrow> totalCountLabel (run p es) =
                 Some (''Public repositories: '' @
                       show_nat (length (filter (\<lambda>c. \<not> card_hidden c) (cards (run p es)))) @ ''/'' @
                       show_nat (length (cards p)))"
    using q unfolding r
    by (auto simp: totalCountLabel_applyFilter same_layout_def split: option.splits)
  have s: "case sectionCount (sections p ! i) of
                 None \<Rightarrow> sectionCount (sections (run p es) ! i) = None
               | Some sc \<Rightarrow> sectionCount (sections (run p es) ! i) =
                   Some (sc\<lparr>count_text :=
                     ''Repositories: '' @
                     show_nat (length (filter (\<lambda>c. i \<in> set (card_sections c) \<and> \<not> card_hidden c)
                                         (repo_cards (run p es)))) @ ''/'' @
                     show_number (parseInt10 (or_else (section_count.total sc) ''0''))\<rparr>)"
    if "i < length (sections p)" for i
  proof -
    from that q have i: "i < length (sections q)"
      and ss: "same_summary (sectionCount (sections p ! i)) (sectionCount (sections q ! i))"
      by (simp_all add: same_layout_def)
    show ?thesis
    proof (cases "sectionCount (sections p ! i)")
      case None
      with ss show ?thesis
        unfolding r by (simp add: nth_sections_applyFilter[OF i])
    next
      case (Some sc0)
      with ss obtain sc where sc: "sectionCount (sections q ! i) = Some sc"
        by (cases "sectionCount (sections q ! i)") simp_all
      from ss Some sc have "same_summary (Some sc0) (Some sc)" by simp
      from same_summary_Some[OF this] Some sc show ?thesis
        unfolding r
        by (simp add: nth_sections_applyFilter[OF i] summaryText_def visibleCardsIn_def)
    qed
  qed
  show ?thesis
    unfolding Let_def using c l s by blast
qed

theorem summaries_after_events_witness:
  "searchInput demo = Some [] \<and>
   totalCountLabel (run demo [Input '' CLI '']) = Some ''Public repositories: 1/2'' \<and>
   sectionCount (sections (run demo [Input '' CLI '']) ! 0) =
     Some \<lparr>total = Some ''1'', count_text = ''Repositories: 1/1''\<rparr> \<and>
   sectionCount (sections (run demo [Input '' CLI '']) ! 1) = None"
proof -
  have h: "searchInput demo = Some []" by (simp add: demo_def)
  have c: "cards demo = [alpha, beta]" "cards (run demo [Input '' CLI '']) = [alpha, beta]"
    "repo_cards (run demo [Input '' CLI '']) = [alpha, beta]"
    unfolding demo_cli by (simp_all add: page_eval)
  have s: "sections demo =
        [\<lparr>section_hidden = False,
          sectionCount = Some \<lparr>total = Some ''1'', count_text = []\<rparr>\<rparr>,
         \<lparr>section_hidden = True, sectionCount = None\<rparr>]"
    "totalCountLabel demo = Some []"
    by (simp_all add: demo_def)
  have n: "show_nat (Suc 0) = ''1''" "show_nat (Suc (Suc 0)) = ''2''"
    "show_number (parseInt10 ''1'') = ''1''"
    by (simp_all add: page_eval)
  have all2: "(\<forall>i<Suc (Suc 0). P i) = (P 0 \<and> P (Suc 0))" for P
    by (auto simp: less_Suc_eq)
  from summaries_after_events[OF h, of "[Input '' CLI '']"]
  show ?thesis
    unfolding Let_def c s
    by (simp add: h all2 alpha_def beta_def or_else_def n)
qed

text \<open>
  C8. Running the recomputation a second time with the same input value changes
  nothing on the page, and neither does running the availability pass a second time.
\<close>

theorem recomputation_idempotent:
  "applyFilter totalCount v (applyFilter totalCount v p) = applyFilter totalCount v p \<and>
   applyLanguageAvailability (applyLanguageAvailability p) = applyLanguageAvailability p"
  using applyFilter_idem availability_idem by simp

theorem recomputation_idempotent_witness:
  "applyFilter 2 ''cli'' (applyFilter 2 ''cli'' demo) = applyFilter 2 ''cli'' demo \<and>
   applyLanguageAvailability (applyLanguageAvailability demo) = applyLanguageAvailability demo"
  by (rule recomputation_idempotent)

text \<open>
  C9. Without the text input the script makes the one lookup of the input, no other
  query and no listener, and returns the page as it is (so does the text-only
  variant), and no event changes the page afterwards. With the input, start-up and
  every event run to their end without a \<open>TypeError\<close>, whichever of the optional
  elements the page lacks, and one recomputation writes every element that is there:
  each card of \<open>cards\<close>, each section, the indicator if present, the global summary if
  present, each section summary that is present, while an absent element stays absent.
  A page without the indicator, without the global summary or without the summaries
  of some sections goes through start-up and every event exactly as the page with
  them does, that element apart; without filter buttons start-up is the recomputation
  alone.
\<close>

theorem optional_elements:
  "(searchInput p = None \<longrightarrow>
      main_js p = Inr (p, [GetById ''repo-search''], []) \<and> run_js p es = Inr p \<and>
      main p = p \<and> run p es = p \<and> main_simple p = p) \<and>
   (\<exists>qs ls. main_js p = Inr (main p, qs, ls)) \<and>
   run_js p es = Inr (run p es) \<and>
   (let q = toLowerCase (trim v);
        S = selectedLanguages (languageFilters p);
        p' = applyFilter totalCount v p;
        visible = length (filter (\<lambda>c. \<not> card_hidden c) (cards p'))
    in length (repo_cards p') = length (repo_cards p) \<and>
       length (sections p') = length (sections p) \<and>
       (\<forall>i<length (repo_cards p). has_repo_name (repo_cards p ! i) \<longrightarrow>
          card_hidden (repo_cards p' ! i) = (\<not> isVisible q S (repo_cards p ! i))) \<and>
       (\<forall>j<length (sections p).
          section_hidden (sections p' ! j) =
            ((q \<noteq> [] \<or> S \<noteq> {}) \<and> visibleCardsIn (repo_cards p') j = [])) \<and>
       emptyState p' =
         (case emptyState p of
            None \<Rightarrow> None
          | Some _ \<Rightarrow> Some (\<not> (q \<noteq> [] \<or> S \<noteq> {}) \<or> 0 < visible)) \<and>
       totalCountLabel p' =
         (case totalCountLabel p of
            None \<Rightarrow> None
          | Some _ \<Rightarrow>
              Some (''Public repositories: '' @ show_nat visible @ ''/'' @ show_nat totalCount)) \<and>
       (\<forall>j<length (sections p).
          sectionCount (sections p' ! j) =
            (case sectionCount (sections p ! j) of
               None \<Rightarrow> None
             | Some sc \<Rightarrow>
                 Some (sc\<lparr>count_text :=
                   ''Repositories: '' @ show_nat (length (visibleCardsIn (repo_cards p') j)) @ ''/'' @
                   show_number (parseInt10 (or_else (section_count.total sc) ''0''))\<rparr>)))) \<and>
   run (p\<lparr>emptyState := None\<rparr>) es = (run p es)\<lparr>emptyState := None\<rparr> \<and>
   run (p\<lparr>totalCountLabel := None\<rparr>) es = (run p es)\<lparr>totalCountLabel := None\<rparr> \<and>
   run (p\<lparr>sections := without_summaries K (sections p)\<rparr>) es =
     (run p es)\<lparr>sections := without_summaries K (sections (run p es))\<rparr> \<and>
   (\<forall>w. searchInput p = Some w \<and> languageFilters p = [] \<longrightarrow>
        main p = applyFilter (length (cards p)) w p)"
proof -
  have a: "main_js p = Inr (p, [GetById ''repo-search''], []) \<and> run_js p es = Inr p \<and>
      main p = p \<and> run p es = p \<and> main_simple p = p" if "searchInput p = None"
    using that run_no_input[OF that, of es] main_js_no_input[OF that]
    by (simp add: main_def main_simple_def run_js_ok)
  have e: "main p = applyFilter (length (cards p)) w p"
    if "searchInput p = Some w" "languageFilters p = []" for w
    using that by (simp add: main_def availability_no_buttons)
  show ?thesis
    apply (intro conjI)
           apply (simp add: a)
          apply (rule main_js_ok)
         apply (rule run_js_ok)
        apply (rule applyFilter_updates)
       apply (rule run_without_emptyState)
      apply (rule run_without_totalCountLabel)
     apply (rule run_without_summaries)
    apply (simp add: e)
    done
qed

theorem optional_elements_witness:
  "searchInput (demo\<lparr>searchInput := None\<rparr>) = None \<and>
   main_js (demo\<lparr>searchInput := None\<rparr>) =
     Inr (demo\<lparr>searchInput := None\<rparr>, [GetById ''repo-search''], []) \<and>
   run (demo\<lparr>searchInput := None\<rparr>) [Click 1, Input ''go''] = demo\<lparr>searchInput := None\<rparr> \<and>
   main_simple (demo\<lparr>searchInput := None\<rparr>) = demo\<lparr>searchInput := None\<rparr> \<and>
   searchInput bare = Some [] \<and> languageFilters bare = [] \<and>
   emptyState bare = None \<and> totalCountLabel bare = None \<and>
   main bare = applyFilter (length (cards bare)) [] bare \<and>
   run_js bare [Input ''cli'', Click 0] = Inr (run bare [Input ''cli'', Click 0]) \<and>
   card_hidden (repo_cards (applyFilter 2 ''cli'' bare) ! 1) \<and>
   \<not> card_hidden (repo_cards (applyFilter 2 ''cli'' bare) ! 0) \<and>
   section_hidden (sections (applyFilter 2 ''cli'' bare) ! 1) \<and>
   \<not> section_hidden (sections (applyFilter 2 ''cli'' bare) ! 0) \<and>
   emptyState (applyFilter 2 ''cli'' bare) = None \<and>
   run (demo\<lparr>emptyState := None\<rparr>) [Input ''zzz''] = (run demo [Input ''zzz''])\<lparr>emptyState := None\<rparr>"
proof -
  have h1: "searchInput (demo\<lparr>searchInput := None\<rparr>) = None" by simp
  have h2: "searchInput bare = Some []" "languageFilters bare = []"
    "emptyState bare = None" "totalCountLabel bare = None"
    by (simp_all add: bare_def)
  have q: "toLowerCase (trim ''cli'') = ''cli''"
    by (simp add: toLowerCase_def lower_char_def trim_def is_ws_def)
  have S: "selectedLanguages (languageFilters bare) = {}"
    by (simp add: selectedLanguages_def bare_def)
  have b: "repo_cards bare = [alpha, beta]" "length (sections bare) = 2"
    by (simp_all add: bare_def)
  have v: "isVisible ''cli'' {} alpha" "\<not> isVisible ''cli'' {} beta"
    "has_repo_name alpha" "has_repo_name beta"
    by (simp_all add: page_eval)
  have all2: "(\<forall>i<Suc (Suc 0). P i) = (P 0 \<and> P (Suc 0))" for P
    by (auto simp: less_Suc_eq)
  note U = optional_elements[of bare "[Input ''cli'', Click 0]" "''cli''" 2 "{}", unfolded Let_def q S b]
  from U have cards': "card_hidden (repo_cards (applyFilter 2 ''cli'' bare) ! 0) = (\<not> isVisible ''cli'' {} alpha)"
    "card_hidden (repo_cards (applyFilter 2 ''cli'' bare) ! 1) = (\<not> isVisible ''cli'' {} beta)"
    using v by (simp_all add: all2)
  have rc: "repo_cards (applyFilter 2 ''cli'' bare) = [alpha, beta\<lparr>card_hidden := True\<rparr>]"
    by (simp add: page_eval bare_def)
  from U have secs: "section_hidden (sections (applyFilter 2 ''cli'' bare) ! 1)"
    "\<not> section_hidden (sections (applyFilter 2 ''cli'' bare) ! 0)"
    unfolding rc by (simp_all add: all2 visibleCardsIn_def alpha_def beta_def)
  from U have es: "emptyState (applyFilter 2 ''cli'' bare) = None"
    by (simp add: h2)
  from U have rj: "run_js bare [Input ''cli'', Click 0] = Inr (run bare [Input ''cli'', Click 0])"
    by simp
  from U h2 have mb: "main bare = applyFilter (length (cards bare)) [] bare"
    by simp
  show ?thesis
    using optional_elements[of "demo\<lparr>searchInput := None\<rparr>" "[Click 1, Input ''go'']" "[]" 2 "{}"]
      optional_elements[of demo "[Input ''zzz'']" "[]" 2 "{}"]
      h1 h2 cards' v secs es rj mb
    by simp
qed

text \<open>
  C10, in the form the script satisfies. For a card without category (the attribute is absent or empty) the
  searchable text is built from the empty string, so the query \<open>unknown\<close> matches
  the card's text exactly when its lower-cased name or its lower-cased description
  contains \<open>unknown\<close>, never through the category; the language filter \<open>unknown\<close>
  does match the card.
\<close>

theorem unknown_sentinel:
  assumes "repoLanguage c = None \<or> repoLanguage c = Some []"
  shows "searchableText c =
           toLowerCase (or_else (repoName c) []) @ ''  '' @ toLowerCase (or_else (repoDescription c) []) \<and>
         isVisible ''unknown'' {} c =
           (sublist ''unknown'' (toLowerCase (or_else (repoName c) [])) \<or>
            sublist ''unknown'' (toLowerCase (or_else (repoDescription c) []))) \<and>
         isVisible [] {''unknown''} c"
proof -
  from assms have l: "or_else (repoLanguage c) [] = []" "or_else (repoLanguage c) ''unknown'' = ''unknown''"
    by (auto simp: or_else_def)
  have sp: "toLowerCase '' '' = '' ''" by (simp add: toLowerCase_def lower_char_def)
  have t: "searchableText c =
      toLowerCase (or_else (repoName c) []) @ CHR '' '' # CHR '' '' # toLowerCase (or_else (repoDescription c) [])"
    using sp by (simp add: searchableText_def l toLowerCase_def)
  have u: "toLowerCase ''unknown'' = ''unknown''" by (simp add: toLowerCase_def lower_char_def)
  have "sublist ''unknown'' (searchableText c) =
      (sublist ''unknown'' (toLowerCase (or_else (repoName c) [])) \<or>
       sublist ''unknown'' (toLowerCase (or_else (repoDescription c) [])))"
    unfolding t
    by (subst sublist_across_space, simp, simp, subst sublist_Cons_right) (auto simp: prefix_def)
  then show ?thesis
    using t by (simp add: isVisible_def includes_sublist cardLanguage_def l u)
qed

text \<open>A card without category whose name contains \<open>unknown\<close> is matched by that query.\<close>

theorem unknown_text_match_counterexample:
  "repoLanguage ghost = None \<and> includes_str (searchableText ghost) ''unknown'' \<and>
   isVisible ''unknown'' {} ghost"
  by (simp add: ghost_def searchableText_def isVisible_def or_else_def toLowerCase_def lower_char_def)

theorem unknown_sentinel_witness:
  "repoLanguage (alpha\<lparr>repoLanguage := None\<rparr>) = None \<and>
   \<not> isVisible ''unknown'' {} (alpha\<lparr>repoLanguage := None\<rparr>) \<and>
   isVisible [] {''unknown''} (alpha\<lparr>repoLanguage := None\<rparr>)"
proof -
  have h: "repoLanguage (alpha\<lparr>repoLanguage := None\<rparr>) = None \<or>
           repoLanguage (alpha\<lparr>repoLanguage := None\<rparr>) = Some []" by simp
  have n: "\<not> sublist ''unknown'' (toLowerCase ''alpha'')" "\<not> sublist ''unknown'' (toLowerCase ''CLI tool'')"
    unfolding includes_sublist[symmetric] by (simp_all add: toLowerCase_def lower_char_def)
  show ?thesis
    using unknown_sentinel[OF h] n by (simp add: alpha_def or_else_def)
qed

end
